theory Spec2Isabelle
  imports Complex_Main
begin

section \<open>The Go event model (package events)\<close>

text \<open>
  The string that \<open>encoding/json\<close> produces is kept in parsed form: an object is the list
  of its members, in the order in which the encoder writes them. String escaping and the
  printing of numbers are not modelled.
\<close>

datatype json =
    JNull
  | JString string
  | JNumber int
  | JBase64 "nat list"
  | JObject "(string \<times> json) list"

text \<open>The errors of the client: \<open>fmt.Errorf\<close> values and the errors of the libraries.\<close>

datatype error =
    Errorf string
  | MarshalError string
  | UnmarshalError string
  | ConnError string
  | CallbackError string

text \<open>
  \<open>Response\<close> and \<open>Item\<close> are declared in \<open>response.go\<close> and \<open>items.go\<close>, and
  \<open>Session\<close> holds \<open>Tool\<close> values of \<open>tools.go\<close>, a \<open>float64\<close> and an \<open>any\<close>; a value of
  one of these three types is carried as what \<open>json.Marshal\<close> yields for it: its JSON, or
  the encoder's error (a \<open>Session\<close> whose \<open>Temperature\<close> is NaN has no JSON, for one).
\<close>

type_synonym encoded = "error + json"

record EventError =
  ErrorType :: string
  Code :: string
  Message :: string
  Param :: string

record Conversation =
  ID :: string
  Object :: string

text \<open>
  The struct \<open>Event\<close>, field by field. A pointer field is an option (\<open>None\<close> is \<open>nil\<close>);
  \<open>VideoFrame\<close> is a byte slice, where \<open>nil\<close> and the empty slice both have length 0.
\<close>

record Event =
  EventID :: string
  Type :: string
  Session :: "encoded option"
  Audio :: string
  Response :: "encoded option"
  ItemID :: string
  PreviousItemID :: string
  ResponseID :: string
  OutputIndex :: int
  ContentIndex :: int
  Delta :: string
  Item :: "encoded option"
  ClientTimestamp :: int
  Transcript :: string
  Name :: string
  Arguments :: string
  VideoFrame :: "nat list"
  Instructions :: string
  Error :: "EventError option"
  Conversation :: "Conversation option"

text \<open>The zero value \<open>events.Event{}\<close>.\<close>

definition zeroEvent :: Event where
  "zeroEvent = \<lparr> EventID = [], Type = [], Session = None, Audio = [], Response = None,
     ItemID = [], PreviousItemID = [], ResponseID = [], OutputIndex = 0, ContentIndex = 0,
     Delta = [], Item = None, ClientTimestamp = 0, Transcript = [], Name = [],
     Arguments = [], VideoFrame = [], Instructions = [], Error = None,
     Conversation = None \<rparr>"

subsection \<open>The encoder, as the struct tags direct it\<close>

text \<open>
  Each function gives the members one field contributes. A field tagged \<open>omitempty\<close>
  contributes nothing when it holds the zero value of its type (the empty string, 0, a
  nil pointer, a slice of length 0); a field without the tag is always written.
\<close>

type_synonym members = "(string \<times> json) list"

definition always_string :: "string \<Rightarrow> string \<Rightarrow> error + members" where
  "always_string k v = Inr [(k, JString v)]"

definition omitempty_string :: "string \<Rightarrow> string \<Rightarrow> error + members" where
  "omitempty_string k v = Inr (if v = [] then [] else [(k, JString v)])"

definition omitempty_int :: "string \<Rightarrow> int \<Rightarrow> error + members" where
  "omitempty_int k v = Inr (if v = 0 then [] else [(k, JNumber v)])"

definition omitempty_bytes :: "string \<Rightarrow> nat list \<Rightarrow> error + members" where
  "omitempty_bytes k v = Inr (if length v = 0 then [] else [(k, JBase64 v)])"

definition omitempty_encoded :: "string \<Rightarrow> encoded option \<Rightarrow> error + members" where
  "omitempty_encoded k v =
     (case v of
        None \<Rightarrow> Inr []
      | Some (Inl e) \<Rightarrow> Inl e
      | Some (Inr j) \<Rightarrow> Inr [(k, j)])"

definition encodeEventError :: "EventError \<Rightarrow> json" where
  "encodeEventError e =
     JObject ([(''type'', JString (ErrorType e)), (''code'', JString (Code e)),
               (''message'', JString (Message e))]
              @ (if Param e = [] then [] else [(''param'', JString (Param e))]))"

definition encodeConversation :: "Conversation \<Rightarrow> json" where
  "encodeConversation c = JObject [(''id'', JString (ID c)), (''object'', JString (Object c))]"

definition omitempty_ptr :: "string \<Rightarrow> ('a \<Rightarrow> json) \<Rightarrow> 'a option \<Rightarrow> error + members" where
  "omitempty_ptr k enc v = Inr (case v of None \<Rightarrow> [] | Some x \<Rightarrow> [(k, enc x)])"

text \<open>The encoder stops at the first field that cannot be encoded.\<close>

fun collect :: "(error + members) list \<Rightarrow> error + members" where
  "collect [] = Inr []"
| "collect (Inl e # rest) = Inl e"
| "collect (Inr ms # rest) =
     (case collect rest of Inl e \<Rightarrow> Inl e | Inr ns \<Rightarrow> Inr (ms @ ns))"

text \<open>The members a field contributes to the object; none when it cannot be encoded.\<close>

definition membersOf :: "error + members \<Rightarrow> members" where
  "membersOf f = (case f of Inl err \<Rightarrow> [] | Inr m \<Rightarrow> m)"

definition eventFields :: "Event \<Rightarrow> (error + members) list" where
  "eventFields e =
     [ omitempty_string ''event_id'' (EventID e),
       always_string ''type'' (Type e),
       omitempty_encoded ''session'' (Session e),
       omitempty_string ''audio'' (Audio e),
       omitempty_encoded ''response'' (Response e),
       omitempty_string ''item_id'' (ItemID e),
       omitempty_string ''previous_item_id'' (PreviousItemID e),
       omitempty_string ''response_id'' (ResponseID e),
       omitempty_int ''output_index'' (OutputIndex e),
       omitempty_int ''content_index'' (ContentIndex e),
       always_string ''delta'' (Delta e),
       omitempty_encoded ''item'' (Item e),
       omitempty_int ''client_timestamp'' (ClientTimestamp e),
       omitempty_string ''transcript'' (Transcript e),
       omitempty_string ''name'' (Name e),
       omitempty_string ''arguments'' (Arguments e),
       omitempty_bytes ''video_frame'' (VideoFrame e),
       omitempty_string ''instructions'' (Instructions e),
       omitempty_ptr ''error'' encodeEventError (Error e),
       omitempty_ptr ''conversation'' encodeConversation (Conversation e) ]"

definition Marshal :: "Event \<Rightarrow> error + members" where
  "Marshal e = collect (eventFields e)"

text \<open>
  \<open>ToJson\<close> returns the empty string when the encoder fails, and the text of the object
  otherwise.
\<close>

datatype jsontext = EmptyString | ObjectText members

definition ToJson :: "Event \<Rightarrow> jsontext" where
  "ToJson e = (case Marshal e of Inl err \<Rightarrow> EmptyString | Inr ms \<Rightarrow> ObjectText ms)"

text \<open>The keys that occur in the text \<open>ToJson\<close> returns.\<close>

fun keys :: "jsontext \<Rightarrow> string set" where
  "keys EmptyString = {}"
| "keys (ObjectText ms) = set (map fst ms)"


section \<open>The Go client (package client)\<close>

text \<open>
  The connection of \<open>gorilla/websocket\<close>, as far as the client can tell: whether
  \<open>Close\<close> was called on it, and the text frames handed to \<open>WriteMessage\<close> that it accepted.
\<close>

record conn =
  closed :: bool
  written :: "jsontext list"

text \<open>
  The struct \<open>realtimeClient\<close>. The callback is a function from the event to the error
  it reports (\<open>None\<close> is \<open>nil\<close>); the lock and the wait group are not modelled: every
  method below runs as one atomic step.
\<close>

record realtimeClient =
  url :: string
  apiKey :: string
  onReceived :: "(Event \<Rightarrow> error option) option"
  conn :: conn
  isConnected :: bool

definition Disconnect :: "error option \<Rightarrow> realtimeClient \<Rightarrow> error option \<times> realtimeClient" where
  \<comment> \<open>\<open>cr\<close> is what \<open>conn.Close()\<close> returns.\<close>
  "Disconnect cr r =
     (if \<not> isConnected r then (None, r)
      else (cr, r\<lparr>isConnected := False, conn := (conn r)\<lparr>closed := True\<rparr>\<rparr>))"

definition Send ::
  "int \<Rightarrow> error option \<Rightarrow> realtimeClient \<Rightarrow> Event \<Rightarrow> error option \<times> realtimeClient \<times> Event" where
  \<comment> \<open>\<open>now\<close> is \<open>time.Now().UnixMilli()\<close>, \<open>wr\<close> is what \<open>conn.WriteMessage\<close> returns.
      The event is passed by pointer: the third component is the caller's event after the call.\<close>
  "Send now wr r event =
     (if \<not> isConnected r then (Some (Errorf ''not connected''), r, event)
      else
        let event' = (if ClientTimestamp event \<le> 0 then event\<lparr>ClientTimestamp := now\<rparr>
                      else event)
        in (case wr of
              Some err \<Rightarrow> (Some err, r, event')
            | None \<Rightarrow>
                (None, r\<lparr>conn := (conn r)\<lparr>written := written (conn r) @ [ToJson event']\<rparr>\<rparr>,
                 event')))"

text \<open>
  The receive loop \<open>readWsMsg\<close>, run on the results that successive calls of
  \<open>conn.ReadMessage\<close> give. What the loop does with each frame is recorded in a trace.
\<close>

datatype read = Message string | ReadFailed error

datatype action = Skipped string | Unmarshalled string | Delivered Event

datatype loop = Reading | Returned

record receiver =
  client :: realtimeClient
  trace :: "action list"

fun readWsMsg ::
  "(string \<Rightarrow> error + Event) \<Rightarrow> receiver \<Rightarrow> read list \<Rightarrow> loop \<times> receiver" where
  \<comment> \<open>\<open>unmarshal\<close> is \<open>json.Unmarshal\<close> into a fresh event. With no result left to read, a
      loop that is still connected blocks in \<open>ReadMessage\<close>.\<close>
  "readWsMsg unmarshal s [] =
     (if isConnected (client s) then (Reading, s) else (Returned, s))"
| "readWsMsg unmarshal s (x # xs) =
     (if \<not> isConnected (client s) then (Returned, s)
      else
        (case x of
           ReadFailed err \<Rightarrow> (Returned, s)
         | Message message \<Rightarrow>
             (case onReceived (client s) of
                None \<Rightarrow> readWsMsg unmarshal (s\<lparr>trace := trace s @ [Skipped message]\<rparr>) xs
              | Some f \<Rightarrow>
                  (case unmarshal message of
                     Inl err \<Rightarrow>
                       (Returned,
                        s\<lparr>client := snd (Disconnect None (client s)),
                          trace := trace s @ [Unmarshalled message]\<rparr>)
                   | Inr event \<Rightarrow>
                       (case f event of
                          Some err \<Rightarrow>
                            (Returned,
                             s\<lparr>client := snd (Disconnect None (client s)),
                               trace := trace s @ [Unmarshalled message, Delivered event]\<rparr>)
                        | None \<Rightarrow>
                            readWsMsg unmarshal
                              (s\<lparr>trace := trace s @ [Unmarshalled message, Delivered event]\<rparr>)
                              xs)))))"

definition NewRealtimeClient ::
  "string \<Rightarrow> string \<Rightarrow> (Event \<Rightarrow> error option) option \<Rightarrow> realtimeClient" where
  \<comment> \<open>The fields the constructor leaves out hold their zero values.\<close>
  "NewRealtimeClient u k cb =
     \<lparr> url = u, apiKey = k, onReceived = cb, conn = \<lparr>closed = False, written = []\<rparr>,
       isConnected = False \<rparr>"

definition Connect :: "error option \<Rightarrow> realtimeClient \<Rightarrow> error option \<times> realtimeClient" where
  \<comment> \<open>\<open>dial\<close> is the error of \<open>websocket.DefaultDialer.Dial\<close>, if any; on success the
      receive loop is started on the new connection.\<close>
  "Connect dial r =
     (if isConnected r then (None, r)
      else
        (case dial of
           Some err \<Rightarrow> (Some err, r)
         | None \<Rightarrow>
             (None, r\<lparr>conn := \<lparr>closed = False, written = []\<rparr>, isConnected := True\<rparr>)))"

text \<open>A client after a successful \<open>Connect\<close>.\<close>

definition connected :: "realtimeClient \<Rightarrow> realtimeClient" where
  "connected r = snd (Connect None r)"


section \<open>The capture segmenter (class ChatVAD)\<close>

text \<open>A \<open>Float32Array\<close> is the list of its samples.\<close>

type_synonym pcm = "real list"

text \<open>
  Modelled from the spec: \<open>concatFloat32Array\<close> and the class \<open>FixedQueue\<close> are imported
  from \<open>utils/chatHelper.ts\<close>, which is not among the sources. The first concatenates two
  sample arrays. The second is the pre-roll buffer: a queue of fixed depth in which the
  oldest entry is evicted when the queue is full, read in chronological order.
\<close>

definition concatFloat32Array :: "pcm \<Rightarrow> pcm \<Rightarrow> pcm" where
  \<comment> \<open>Modelled from the spec: \<open>concatFloat32Array\<close> of \<open>utils/chatHelper.ts\<close>.\<close>
  "concatFloat32Array a b = a @ b"

record 'a FixedQueue =
  capacity :: nat
  queue :: "'a list"

definition FixedQueue_new :: "nat \<Rightarrow> 'a FixedQueue" where
  \<comment> \<open>Modelled from the spec: the constructor of \<open>FixedQueue\<close>, given the depth.\<close>
  "FixedQueue_new n = \<lparr> capacity = n, queue = [] \<rparr>"

definition FixedQueue_append :: "'a \<Rightarrow> 'a FixedQueue \<Rightarrow> 'a FixedQueue" where
  \<comment> \<open>Modelled from the spec: \<open>FixedQueue.append\<close>; the oldest entry is evicted when the
      queue is full.\<close>
  "FixedQueue_append x q =
     (if length (queue q) \<ge> capacity q then q\<lparr>queue := tl (queue q) @ [x]\<rparr>
      else q\<lparr>queue := queue q @ [x]\<rparr>)"

definition FixedQueue_length :: "'a FixedQueue \<Rightarrow> nat" where
  \<comment> \<open>Modelled from the spec: \<open>FixedQueue.length\<close>, the number of entries held.\<close>
  "FixedQueue_length q = length (queue q)"

definition getQueue :: "'a FixedQueue \<Rightarrow> 'a list" where
  \<comment> \<open>Modelled from the spec: \<open>FixedQueue.getQueue\<close>, the entries in chronological order.\<close>
  "getQueue q = queue q"

definition FixedQueue_clear :: "'a FixedQueue \<Rightarrow> 'a FixedQueue" where
  \<comment> \<open>Modelled from the spec: \<open>FixedQueue.clear\<close>.\<close>
  "FixedQueue_clear q = q\<lparr>queue := []\<rparr>"

text \<open>
  A JavaScript number is an IEEE double. A finite double is kept as a mantissa and an
  exponent, \<open>Dyadic m e\<close> standing for \<open>m * 2 ^ e\<close> with \<open>\<bar>m\<bar> < 2 ^ 53\<close>; the sign of
  zero is not kept. Arithmetic on doubles rounds to the nearest double, ties to the even
  mantissa.
\<close>

datatype float64 = NotANumber | PlusInfinity | MinusInfinity | Dyadic int int

definition pow2 :: "int \<Rightarrow> real" where
  "pow2 e = (if e \<ge> 0 then 2 ^ nat e else 1 / 2 ^ nat (- e))"

text \<open>A number used as a condition: not-a-number and zero count as false.\<close>

fun falsy :: "float64 \<Rightarrow> bool" where
  "falsy NotANumber = True"
| "falsy (Dyadic m e) = (m = 0)"
| "falsy x = False"

text \<open>\<open>p >= x\<close> and \<open>p < x\<close> for a finite \<open>p\<close>; a comparison with not-a-number is false.\<close>

fun at_least :: "real \<Rightarrow> float64 \<Rightarrow> bool" where
  "at_least p NotANumber = False"
| "at_least p PlusInfinity = False"
| "at_least p MinusInfinity = True"
| "at_least p (Dyadic m e) = (p \<ge> real_of_int m * pow2 e)"

fun below :: "real \<Rightarrow> float64 \<Rightarrow> bool" where
  "below p NotANumber = False"
| "below p PlusInfinity = True"
| "below p MinusInfinity = False"
| "below p (Dyadic m e) = (p < real_of_int m * pow2 e)"

text \<open>\<open>x < y\<close> on doubles.\<close>

fun lower :: "float64 \<Rightarrow> float64 \<Rightarrow> bool" where
  "lower NotANumber y = False"
| "lower x NotANumber = False"
| "lower PlusInfinity y = False"
| "lower x MinusInfinity = False"
| "lower MinusInfinity y = True"
| "lower x PlusInfinity = True"
| "lower (Dyadic m e) (Dyadic n f) = (real_of_int m * pow2 e < real_of_int n * pow2 f)"

text \<open>
  Rounding \<open>m * 2 ^ e\<close> to a double: \<open>excess\<close> is the number of low bits of the mantissa
  that do not fit in 53 bits; they are dropped, rounding to the nearest mantissa and to
  the even one in a tie. A result beyond the largest double is an infinity.
\<close>

fun excess :: "nat \<Rightarrow> nat" where
  "excess n = (if n < 2 ^ 53 then 0 else Suc (excess (n div 2)))"

declare excess.simps [simp del]

definition round53 :: "int \<Rightarrow> int \<Rightarrow> float64" where
  "round53 m e =
     (let k = excess (nat \<bar>m\<bar>)
      in if k = 0 then Dyadic m e
         else
           let q = m div 2 ^ k;
               r = m mod 2 ^ k;
               h = 2 ^ (k - 1);
               q' = (if r > h \<or> (r = h \<and> odd q) then q + 1 else q);
               q'' = (if \<bar>q'\<bar> = 2 ^ 53 then q' div 2 else q');
               e' = (if \<bar>q'\<bar> = 2 ^ 53 then e + int k + 1 else e + int k)
           in if e' > 971 then (if m < 0 then MinusInfinity else PlusInfinity)
              else Dyadic q'' e')"

fun fsub :: "float64 \<Rightarrow> float64 \<Rightarrow> float64" where
  "fsub NotANumber y = NotANumber"
| "fsub x NotANumber = NotANumber"
| "fsub PlusInfinity PlusInfinity = NotANumber"
| "fsub MinusInfinity MinusInfinity = NotANumber"
| "fsub PlusInfinity y = PlusInfinity"
| "fsub MinusInfinity y = MinusInfinity"
| "fsub x PlusInfinity = MinusInfinity"
| "fsub x MinusInfinity = PlusInfinity"
| "fsub (Dyadic m e) (Dyadic n f) =
     (let g = min e f
      in round53 (m * 2 ^ nat (e - g) - n * 2 ^ nat (f - g)) g)"

text \<open>
  The doubles of the literals \<open>0.85\<close>, \<open>0.25\<close>, \<open>0.6\<close> and \<open>1\<close>: the nearest multiples of
  \<open>2 ^ -53\<close> for the first and the third, the other two exact.
\<close>

definition double_0_85 :: float64 where
  "double_0_85 = Dyadic 7656119366529843 (- 53)"

definition double_0_25 :: float64 where
  "double_0_25 = Dyadic 1 (- 2)"

definition double_0_6 :: float64 where
  "double_0_6 = Dyadic 5404319552844595 (- 53)"

definition double_1 :: float64 where
  "double_1 = Dyadic 1 0"

text \<open>
  \<open>VADOptions\<close>. A number that may be missing is an option. Of a callback only its
  presence matters (calling it is recorded, see \<open>calls\<close> below); a veto hook is \<open>None\<close>
  when missing and otherwise carries the answer it gives.
\<close>

record VADOptions =
  opt_threshold :: "float64 option"
  opt_vadFrame :: "float64 option"
  onSpeechStart :: bool
  revokeSpeechStart :: "bool option"
  onSpeechEnd :: bool
  revokeSpeechEnd :: "bool option"
  onFrameProcess :: bool
  onVADOpen :: bool

text \<open>The options object passed to \<open>MicVAD.new\<close>, and whether the instance is running.\<close>

record MicVAD =
  redemptionFrames :: float64
  positiveSpeechThreshold :: float64
  negativeSpeechThreshold :: float64
  preSpeechPadFrames :: nat
  listening :: bool

datatype callback =
    OnSpeechStart
  | OnSpeechEnd
  | OnFrameProcess pcm
  | OnVADOpen bool

text \<open>
  The fields of \<open>ChatVAD\<close>, with \<open>chatBase.speeching\<close> (the speaking flag, owned by the
  shared base object) and the sequence of caller callbacks invoked so far.
\<close>

record ChatVAD =
  threshold :: float64
  vadFrame :: float64
  recordPCMPart :: pcm
  recordPCM :: pcm
  options :: VADOptions
  vadInstance :: "MicVAD option"
  aheadChunks :: "pcm FixedQueue"
  speechStart :: bool
  speeching :: bool
  calls :: "callback list"

datatype exn = JsError string | InvalidStateError

text \<open>
  The constructor: \<open>x || y\<close> is \<open>y\<close> when \<open>x\<close> is missing, zero or not-a-number.
\<close>

definition ChatVAD_new :: "VADOptions \<Rightarrow> ChatVAD" where
  "ChatVAD_new opts =
     \<lparr> threshold = (case opt_threshold opts of
                       None \<Rightarrow> double_0_85
                     | Some t \<Rightarrow> if falsy t then double_0_85 else t),
       vadFrame = (case opt_vadFrame opts of
                      None \<Rightarrow> double_1
                    | Some f \<Rightarrow> if falsy f then double_1 else f),
       recordPCMPart = [],
       recordPCM = [],
       options = opts,
       vadInstance = None,
       aheadChunks = FixedQueue_new 4,
       speechStart = False,
       speeching = False,
       calls = [] \<rparr>"

definition vadConfig :: "ChatVAD \<Rightarrow> MicVAD" where
  "vadConfig v =
     \<lparr> redemptionFrames = vadFrame v,
       positiveSpeechThreshold = threshold v,
       negativeSpeechThreshold = fsub (threshold v) double_0_25,
       preSpeechPadFrames = 4,
       listening = False \<rparr>"

definition ChatVAD_init :: "bool \<Rightarrow> ChatVAD \<Rightarrow> exn + ChatVAD" where
  \<comment> \<open>The flag says whether \<open>chatBase.userStream.audioSource\<close> is set.\<close>
  "ChatVAD_init audioSource v =
     (if \<not> audioSource then Inl (JsError ''audioSource is required'')
      else Inr (v\<lparr>vadInstance := Some (vadConfig v)\<rparr>))"

definition call :: "bool \<Rightarrow> callback \<Rightarrow> ChatVAD \<Rightarrow> ChatVAD" where
  \<comment> \<open>\<open>this.options.f?.(...)\<close>: the callback runs when it is present.\<close>
  "call present c v = (if present then v\<lparr>calls := calls v @ [c]\<rparr> else v)"

definition onFrameProcessed :: "pcm \<Rightarrow> ChatVAD \<Rightarrow> ChatVAD" where
  \<comment> \<open>A \<open>Float32Array\<close> is an object, so the test \<open>if (inputBuffer)\<close> always passes.\<close>
  "onFrameProcessed frame v =
     (if \<not> speeching v then v\<lparr>aheadChunks := FixedQueue_append frame (aheadChunks v)\<rparr>
      else
        let inputBuffer =
              (if speechStart v \<and> FixedQueue_length (aheadChunks v) > 0
               then concatFloat32Array
                      (foldl concatFloat32Array [] (getQueue (aheadChunks v))) frame
               else frame);
            v1 = (if speechStart v
                  then v\<lparr>recordPCMPart := [], speechStart := False,
                         aheadChunks := FixedQueue_clear (aheadChunks v)\<rparr>
                  else v)
        in call (onFrameProcess (options v1)) (OnFrameProcess inputBuffer)
             (v1\<lparr>recordPCMPart := concatFloat32Array (recordPCMPart v1) inputBuffer\<rparr>))"

definition handleSpeechEnd :: "ChatVAD \<Rightarrow> ChatVAD" where
  "handleSpeechEnd v =
     (if revokeSpeechEnd (options v) = Some True then v
      else
        let v1 = call (onSpeechEnd (options v)) OnSpeechEnd (v\<lparr>speeching := False\<rparr>)
        in v1\<lparr>aheadChunks := FixedQueue_clear (aheadChunks v1)\<rparr>)"

definition handleSpeechStart :: "ChatVAD \<Rightarrow> ChatVAD" where
  "handleSpeechStart v =
     (if revokeSpeechStart (options v) = Some True then v
      else call (onSpeechStart (options v)) OnSpeechStart
             (v\<lparr>speechStart := True, speeching := True\<rparr>))"

definition ChatVAD_start :: "ChatVAD \<Rightarrow> ChatVAD" where
  "ChatVAD_start v =
     (case vadInstance v of
        None \<Rightarrow> v
      | Some inst \<Rightarrow>
          call (onVADOpen (options v)) (OnVADOpen True)
            (v\<lparr>vadInstance := Some (inst\<lparr>listening := True\<rparr>)\<rparr>))"

definition ChatVAD_pause :: "ChatVAD \<Rightarrow> ChatVAD" where
  "ChatVAD_pause v =
     (case vadInstance v of
        None \<Rightarrow> v
      | Some inst \<Rightarrow>
          let v1 = call (onVADOpen (options v)) (OnVADOpen False)
                     (v\<lparr>vadInstance := Some (inst\<lparr>listening := False\<rparr>)\<rparr>)
          in if speeching v1 then handleSpeechEnd v1 else v1)"

definition ChatVAD_destroy :: "ChatVAD \<Rightarrow> ChatVAD" where
  "ChatVAD_destroy v =
     (case vadInstance v of
        None \<Rightarrow> v
      | Some inst \<Rightarrow> (ChatVAD_pause v)\<lparr>vadInstance := None\<rparr>)"

definition concatRecord :: "ChatVAD \<Rightarrow> ChatVAD" where
  "concatRecord v = v\<lparr>recordPCM := concatFloat32Array (recordPCM v) (recordPCMPart v)\<rparr>"

definition clearRecord :: "ChatVAD \<Rightarrow> ChatVAD" where
  "clearRecord v = v\<lparr>recordPCM := [], recordPCMPart := []\<rparr>"

text \<open>The frames of a list, handed to \<open>onFrameProcessed\<close> one after the other.\<close>

fun frames :: "pcm list \<Rightarrow> ChatVAD \<Rightarrow> ChatVAD" where
  "frames [] v = v"
| "frames (f # fs) v = frames fs (onFrameProcessed f v)"

subsection \<open>The speech classifier\<close>

text \<open>
  Modelled from the spec: the classifier is \<open>MicVAD\<close> of the package
  \<open>@ricky0123/vad-web\<close>, which the sources configure and do not contain. It is a machine
  with the states idle and speaking over the speech probability of each frame: a
  probability that reaches the positive threshold starts speech; while speaking, a
  probability below the negative threshold counts as silence, and speech ends once the
  silent frames counted since the last frame of speech reach \<open>redemptionFrames\<close>.
\<close>

record classifier =
  speaking :: bool
  redemptionCounter :: nat

datatype transition = SpeechStart | SpeechEnd

definition classify :: "MicVAD \<Rightarrow> real \<Rightarrow> classifier \<Rightarrow> transition option \<times> classifier" where
  \<comment> \<open>Modelled from the spec: what the classifier does with the probability of one frame.\<close>
  "classify cfg prob c =
     (let c1 = (if at_least prob (positiveSpeechThreshold cfg)
                then c\<lparr>redemptionCounter := 0\<rparr> else c)
      in if at_least prob (positiveSpeechThreshold cfg) \<and> \<not> speaking c1
         then (Some SpeechStart, c1\<lparr>speaking := True\<rparr>)
         else if below prob (negativeSpeechThreshold cfg) \<and> speaking c1
         then (if at_least (real (redemptionCounter c1 + 1)) (redemptionFrames cfg)
               then (Some SpeechEnd, c1\<lparr>speaking := False, redemptionCounter := 0\<rparr>)
               else (None, c1\<lparr>redemptionCounter := redemptionCounter c1 + 1\<rparr>))
         else (None, c1))"

text \<open>The transitions over a sequence of probabilities, each with the index of its frame.\<close>

fun transitions :: "MicVAD \<Rightarrow> classifier \<Rightarrow> nat \<Rightarrow> real list \<Rightarrow> (nat \<times> transition) list" where
  \<comment> \<open>Modelled from the spec: the classifier run over the frames, counted from \<open>i\<close>.\<close>
  "transitions cfg c i [] = []"
| "transitions cfg c i (p # ps) =
     (case classify cfg p c of
        (None, c') \<Rightarrow> transitions cfg c' (i + 1) ps
      | (Some t, c') \<Rightarrow> (i, t) # transitions cfg c' (i + 1) ps)"

text \<open>The state of the classifier after a sequence of probabilities.\<close>

fun after :: "MicVAD \<Rightarrow> classifier \<Rightarrow> real list \<Rightarrow> classifier" where
  \<comment> \<open>Modelled from the spec: the classifier run over the frames, for its last state.\<close>
  "after cfg c [] = c"
| "after cfg c (p # ps) = after cfg (snd (classify cfg p c)) ps"

text \<open>
  Modelled from the spec: the classifier drives the segmenter. A frame that comes in is
  first handed to the segmenter in the state it is in (while idle it is pushed into the
  pre-roll, while speaking it is appended to the body); the classifier then evaluates the
  frame, and a transition it reports runs the handler of the segmenter. An input is the
  speech probability of a frame with its samples.
\<close>

fun pipeline ::
  "MicVAD \<Rightarrow> classifier \<Rightarrow> ChatVAD \<Rightarrow> (real \<times> pcm) list \<Rightarrow> classifier \<times> ChatVAD" where
  \<comment> \<open>Modelled from the spec: frame first, then the transition the frame causes; the end
      of speech and a misfire both run \<open>handleSpeechEnd\<close>.\<close>
  "pipeline cfg c v [] = (c, v)"
| "pipeline cfg c v ((prob, frame) # rest) =
     (let v1 = onFrameProcessed frame v
      in case classify cfg prob c of
           (None, c') \<Rightarrow> pipeline cfg c' v1 rest
         | (Some SpeechStart, c') \<Rightarrow> pipeline cfg c' (handleSpeechStart v1) rest
         | (Some SpeechEnd, c') \<Rightarrow> pipeline cfg c' (handleSpeechEnd v1) rest)"


section \<open>The container-streaming playback backend (class MediaSourcePlayer)\<close>

text \<open>
  A JavaScript number, as far as \<open>MediaSource.duration\<close> needs it: not-a-number (the
  duration of a source with no media yet), a finite value, or \<open>Infinity\<close> (a stream that
  is still growing).
\<close>

datatype number = NaN | Num real | Infinity

fun ge :: "number \<Rightarrow> real \<Rightarrow> bool" where
  "ge NaN r = False"
| "ge (Num x) r = (x \<ge> r)"
| "ge Infinity r = True"

fun gt :: "number \<Rightarrow> real \<Rightarrow> bool" where
  "gt NaN r = False"
| "gt (Num x) r = (x > r)"
| "gt Infinity r = True"

type_synonym chunk = "nat list"

datatype readyState = Closed | Open | Ended

record MediaSource =
  duration :: number
  state :: readyState

text \<open>
  The browser's \<open>SourceBuffer\<close>: \<open>appendBuffer\<close> is asynchronous, the chunk is in flight
  until the buffer fires \<open>updateend\<close>. The record keeps the chunks in flight, the chunks
  whose append was acknowledged (in the order of the acknowledgments), the attribute
  \<open>updating\<close>, and whether a one-shot listener for \<open>updateend\<close> is registered.
\<close>

record SourceBuffer =
  updating :: bool
  inflight :: "chunk list"
  acknowledged :: "chunk list"
  listener :: bool

text \<open>What the player does to the audio element, in order.\<close>

datatype audio_op = SetSrc | SetCurrentTime real | Play | Pause

record MediaSourcePlayer =
  playing :: bool
  ttsMediaSource :: "MediaSource option"
  ttsSourceBuffer :: "SourceBuffer option"
  sourceBufferResolver :: bool
  bufferUpdating :: bool
  bufferQueue :: "chunk list"
  lastDuration :: real
  ttsEnded :: bool
  audioElement :: "audio_op list"
  interruptLouder :: bool
  gain :: real

definition MediaSourcePlayer_new :: "bool \<Rightarrow> MediaSourcePlayer" where
  \<comment> \<open>The field initialisers; the flag is \<open>chatBase.interruptLouder\<close>.\<close>
  "MediaSourcePlayer_new louder =
     \<lparr> playing = False, ttsMediaSource = None, ttsSourceBuffer = None,
       sourceBufferResolver = False, bufferUpdating = False, bufferQueue = [],
       lastDuration = 0, ttsEnded = False, audioElement = [],
       interruptLouder = louder, gain = 1 \<rparr>"

definition appendBuffer :: "chunk \<Rightarrow> SourceBuffer \<Rightarrow> exn + SourceBuffer" where
  \<comment> \<open>The browser rejects an append while another one is in flight.\<close>
  "appendBuffer data sb =
     (if updating sb then Inl InvalidStateError
      else Inr (sb\<lparr>updating := True, inflight := inflight sb @ [data]\<rparr>))"

definition append_chunk :: "chunk \<Rightarrow> MediaSourcePlayer \<Rightarrow> exn + MediaSourcePlayer" where
  \<comment> \<open>The method \<open>append\<close>.\<close>
  "append_chunk data p =
     (case ttsSourceBuffer p of
        None \<Rightarrow> Inr p
      | Some sb \<Rightarrow>
          (case appendBuffer data (sb\<lparr>listener := True\<rparr>) of
             Inl err \<Rightarrow> Inl err
           | Inr sb' \<Rightarrow>
               Inr (p\<lparr>ttsSourceBuffer := Some sb', bufferUpdating := True,
                      sourceBufferResolver := True\<rparr>)))"

definition sourceBufferOnUpdateEnd :: "MediaSourcePlayer \<Rightarrow> exn + MediaSourcePlayer" where
  \<comment> \<open>\<open>this.lastDuration\<close> as a condition is true for a number other than 0.\<close>
  "sourceBufferOnUpdateEnd p =
     (case ttsMediaSource p of
        None \<Rightarrow> Inr p
      | Some ms \<Rightarrow>
          let p1 = p\<lparr>sourceBufferResolver := False\<rparr>;
              p2 = (if duration ms = Infinity then p1\<lparr>lastDuration := 0\<rparr> else p1);
              p3 = (if \<not> playing p2 \<and> ge (duration ms) 0.5
                    then
                      let a = (if ttsEnded p2 \<and> lastDuration p2 \<noteq> 0
                               then audioElement p2 @ [SetCurrentTime (lastDuration p2)]
                               else audioElement p2)
                      in p2\<lparr>audioElement := a @ [Play], playing := True\<rparr>
                    else p2);
              p4 = p3\<lparr>bufferUpdating := False\<rparr>
          in (case bufferQueue p4 of
                [] \<Rightarrow> Inr p4
              | data # rest \<Rightarrow> append_chunk data (p4\<lparr>bufferQueue := rest\<rparr>)))"

definition MediaSourcePlayer_init :: "MediaSourcePlayer \<Rightarrow> MediaSourcePlayer" where
  \<comment> \<open>A new media source is attached to the audio element and, once it is open, gets a
      new source buffer. The throw for a missing audio element is left out: the
      constructor's options always hold one.\<close>
  "MediaSourcePlayer_init p =
     p\<lparr>ttsMediaSource := Some \<lparr>duration = NaN, state = Open\<rparr>,
       audioElement := audioElement p @ [SetSrc],
       ttsSourceBuffer :=
         Some \<lparr>updating = False, inflight = [], acknowledged = [], listener = False\<rparr>\<rparr>"

definition MediaSourcePlayer_reset :: "MediaSourcePlayer \<Rightarrow> MediaSourcePlayer" where
  \<comment> \<open>\<open>removeSourceBuffer\<close> acts on the old media source only, which \<open>init\<close> replaces.\<close>
  "MediaSourcePlayer_reset p =
     (if ttsMediaSource p = None \<or> ttsSourceBuffer p = None then p
      else MediaSourcePlayer_init p)"

definition MediaSourcePlayer_pause :: "MediaSourcePlayer \<Rightarrow> MediaSourcePlayer" where
  "MediaSourcePlayer_pause p = p\<lparr>audioElement := audioElement p @ [Pause], playing := False\<rparr>"

definition endOfStream :: "MediaSourcePlayer \<Rightarrow> MediaSourcePlayer" where
  \<comment> \<open>Sealing is recorded in the state of the media source.\<close>
  "endOfStream p =
     (case ttsMediaSource p of
        None \<Rightarrow> p
      | Some ms \<Rightarrow>
          if state ms = Open then p\<lparr>ttsMediaSource := Some (ms\<lparr>state := Ended\<rparr>)\<rparr> else p)"

definition checkBufferUpdating :: "MediaSourcePlayer \<Rightarrow> bool" where
  "checkBufferUpdating p \<longleftrightarrow>
     bufferUpdating p
     \<or> (case ttsSourceBuffer p of None \<Rightarrow> False | Some sb \<Rightarrow> updating sb)
     \<or> length (bufferQueue p) > 0"

definition adaptBuffer :: "chunk \<Rightarrow> MediaSourcePlayer \<Rightarrow> exn + MediaSourcePlayer" where
  "adaptBuffer data p =
     (if checkBufferUpdating p then Inr (p\<lparr>bufferQueue := bufferQueue p @ [data]\<rparr>)
      else append_chunk data p)"

definition onPlayTTS :: "MediaSourcePlayer \<Rightarrow> MediaSourcePlayer" where
  "onPlayTTS p =
     (let p1 = p\<lparr>playing := True, ttsEnded := False\<rparr>
      in if interruptLouder p1 then p1\<lparr>gain := 0.18\<rparr> else p1)"

definition onPauseTTS :: "MediaSourcePlayer \<Rightarrow> MediaSourcePlayer" where
  "onPauseTTS p =
     (let p1 = p\<lparr>playing := False\<rparr>
      in if interruptLouder p1 then p1\<lparr>gain := 1\<rparr> else p1)"

definition onCloseTTS :: "MediaSourcePlayer \<Rightarrow> MediaSourcePlayer" where
  "onCloseTTS p =
     (let p1 = p\<lparr>playing := False, ttsEnded := True\<rparr>
      in if interruptLouder p1 then p1\<lparr>gain := 1\<rparr> else p1)"

text \<open>
  What can happen to a player: a chunk is submitted; the source buffer acknowledges the
  append in flight (\<open>updateend\<close>), the media source reporting the given duration at that
  moment; the audio element fires \<open>play\<close>, \<open>pause\<close> or \<open>ended\<close>; the turn is sealed; the
  player is paused or reset. An acknowledgment can only come while an append is in
  flight, and runs the handler when the one-shot listener is registered.
\<close>

datatype event =
    Submit chunk
  | UpdateEnd number
  | AudioPlay
  | AudioPause
  | AudioEnded
  | EndTurn
  | PausePlayer
  | Reset

definition updateend :: "number \<Rightarrow> MediaSourcePlayer \<Rightarrow> exn + MediaSourcePlayer" where
  "updateend d p =
     (case ttsSourceBuffer p of
        None \<Rightarrow> Inr p
      | Some sb \<Rightarrow>
          if \<not> updating sb then Inr p
          else
            let sb' = sb\<lparr>updating := False, inflight := [],
                        acknowledged := acknowledged sb @ inflight sb, listener := False\<rparr>;
                ms' = map_option (\<lambda>ms. ms\<lparr>duration := d\<rparr>) (ttsMediaSource p);
                p' = p\<lparr>ttsSourceBuffer := Some sb', ttsMediaSource := ms'\<rparr>
            in if listener sb then sourceBufferOnUpdateEnd p' else Inr p')"

fun step :: "event \<Rightarrow> MediaSourcePlayer \<Rightarrow> exn + MediaSourcePlayer" where
  "step (Submit data) p = adaptBuffer data p"
| "step (UpdateEnd d) p = updateend d p"
| "step AudioPlay p = Inr (onPlayTTS p)"
| "step AudioPause p = Inr (onPauseTTS p)"
| "step AudioEnded p = Inr (onCloseTTS p)"
| "step EndTurn p = Inr (endOfStream p)"
| "step PausePlayer p = Inr (MediaSourcePlayer_pause p)"
| "step Reset p = Inr (MediaSourcePlayer_reset p)"

fun run :: "event list \<Rightarrow> MediaSourcePlayer \<Rightarrow> exn + MediaSourcePlayer" where
  "run [] p = Inr p"
| "run (e # es) p = (case step e p of Inl err \<Rightarrow> Inl err | Inr p' \<Rightarrow> run es p')"

text \<open>The chunks submitted by a sequence of events, in order.\<close>

fun submitted :: "event list \<Rightarrow> chunk list" where
  "submitted [] = []"
| "submitted (Submit data # es) = data # submitted es"
| "submitted (e # es) = submitted es"


text \<open>
  The length of media the source buffer of a player holds (the end of the browser's
  \<open>SourceBuffer.buffered\<close>), given the length of media in each chunk: the sum over the
  chunks whose append was acknowledged. The player never reads it.
\<close>

definition bufferedDuration :: "(chunk \<Rightarrow> real) \<Rightarrow> MediaSourcePlayer \<Rightarrow> real" where
  "bufferedDuration len p =
     (case ttsSourceBuffer p of
        None \<Rightarrow> 0
      | Some sb \<Rightarrow> sum_list (map len (acknowledged sb)))"

text \<open>
  The single-writer discipline as a condition on a player: it has a media source and a
  source buffer, its flag \<open>bufferUpdating\<close> agrees with the buffer's \<open>updating\<close>, the
  handler is registered exactly while an append is in flight, one chunk is in flight
  then, and none is in flight and none is queued otherwise.
\<close>

definition single_writer :: "MediaSourcePlayer \<Rightarrow> bool" where
  "single_writer p =
     (case ttsSourceBuffer p of
        None \<Rightarrow> False
      | Some sb \<Rightarrow>
          ttsMediaSource p \<noteq> None
          \<and> bufferUpdating p = updating sb
          \<and> listener sb = updating sb
          \<and> (if updating sb then length (inflight sb) = 1
              else inflight sb = [] \<and> bufferQueue p = []))"

text \<open>
  The chunks a player holds, oldest first: those acknowledged, the one in flight, those
  queued.
\<close>

definition held :: "MediaSourcePlayer \<Rightarrow> chunk list" where
  "held p =
     (case ttsSourceBuffer p of
        None \<Rightarrow> bufferQueue p
      | Some sb \<Rightarrow> acknowledged sb @ inflight sb @ bufferQueue p)"

section \<open>Properties of the Go client\<close>

subsection \<open>Serialization\<close>

lemma collect_Inr:
  "collect fs = Inr ms \<Longrightarrow> ms = concat (map membersOf fs)"
proof (induction fs arbitrary: ms rule: collect.induct)
  case 1
  then show ?case by simp
next
  case (2 e rest)
  then show ?case by simp
next
  case (3 m rest)
  then show ?case by (auto simp: membersOf_def split: sum.splits)
qed

lemma keys_concat: "fst ` set (concat (map g fs)) = (\<Union>f \<in> set fs. fst ` set (g f))"
  by (induction fs) auto

lemma key_of_ToJson:
  assumes "Marshal e = Inr ms"
  shows "k \<in> keys (ToJson e) \<longleftrightarrow> (\<exists>f \<in> set (eventFields e). k \<in> fst ` set (membersOf f))"
proof -
  have "ms = concat (map membersOf (eventFields e))"
    using assms collect_Inr unfolding Marshal_def by blast
  then have "fst ` set ms = (\<Union>f \<in> set (eventFields e). fst ` set (membersOf f))"
    using keys_concat by metis
  then show ?thesis using assms by (simp add: ToJson_def)
qed

lemma contrib_always_string:
  "x \<in> fst ` set (membersOf (always_string k v)) \<longleftrightarrow> x = k"
  by (simp add: always_string_def membersOf_def)

lemma contrib_omitempty_string:
  "x \<in> fst ` set (membersOf (omitempty_string k v)) \<longleftrightarrow> x = k \<and> v \<noteq> []"
  by (simp add: omitempty_string_def membersOf_def)

lemma contrib_omitempty_int:
  "x \<in> fst ` set (membersOf (omitempty_int k v)) \<longleftrightarrow> x = k \<and> v \<noteq> 0"
  by (simp add: omitempty_int_def membersOf_def)

lemma contrib_omitempty_bytes:
  "x \<in> fst ` set (membersOf (omitempty_bytes k v)) \<longleftrightarrow> x = k \<and> v \<noteq> []"
  by (simp add: omitempty_bytes_def membersOf_def)

lemma contrib_omitempty_encoded:
  "x \<in> fst ` set (membersOf (omitempty_encoded k v)) \<longleftrightarrow> x = k \<and> (\<exists>j. v = Some (Inr j))"
  by (auto simp: omitempty_encoded_def membersOf_def split: option.splits sum.splits)

lemma contrib_omitempty_ptr:
  "x \<in> fst ` set (membersOf (omitempty_ptr k enc v)) \<longleftrightarrow> x = k \<and> v \<noteq> None"
  by (auto simp: omitempty_ptr_def membersOf_def split: option.splits)

lemmas contrib = contrib_always_string contrib_omitempty_string contrib_omitempty_int
  contrib_omitempty_bytes contrib_omitempty_encoded contrib_omitempty_ptr

lemma absent_key:
  assumes "\<And>ms. Marshal e = Inr ms \<Longrightarrow>
     \<not> (\<exists>f \<in> set (eventFields e). k \<in> fst ` set (membersOf f))"
  shows "k \<notin> keys (ToJson e)"
proof (cases "Marshal e")
  case (Inl a)
  then show ?thesis by (simp add: ToJson_def)
next
  case (Inr ms)
  then show ?thesis using assms[OF Inr] key_of_ToJson[OF Inr] by simp
qed

lemma untagged_keys:
  "ToJson e \<noteq> EmptyString \<longrightarrow> ''delta'' \<in> keys (ToJson e) \<and> ''type'' \<in> keys (ToJson e)"
proof (cases "Marshal e")
  case (Inl a)
  then show ?thesis by (simp add: ToJson_def)
next
  case (Inr ms)
  show ?thesis unfolding key_of_ToJson[OF Inr] eventFields_def by (simp add: contrib)
qed

lemmas field_defs = eventFields_def always_string_def omitempty_string_def omitempty_int_def
  omitempty_bytes_def omitempty_encoded_def omitempty_ptr_def

text \<open>
  C6 (as amended). Whenever the encoder succeeds, so that \<open>ToJson\<close> does not return the
  empty string, the text has the key \<open>delta\<close> (and \<open>type\<close>), whatever the field holds.
  In every case the text has no key for a field tagged \<open>omitempty\<close> that holds the zero
  value of its type.
\<close>

theorem ToJson_omits_unset_keeps_delta:
  "(ToJson e \<noteq> EmptyString \<longrightarrow> ''delta'' \<in> keys (ToJson e) \<and> ''type'' \<in> keys (ToJson e))
   \<and> (EventID e = [] \<longrightarrow> ''event_id'' \<notin> keys (ToJson e))
   \<and> (Session e = None \<longrightarrow> ''session'' \<notin> keys (ToJson e))
   \<and> (Audio e = [] \<longrightarrow> ''audio'' \<notin> keys (ToJson e))
   \<and> (Response e = None \<longrightarrow> ''response'' \<notin> keys (ToJson e))
   \<and> (ItemID e = [] \<longrightarrow> ''item_id'' \<notin> keys (ToJson e))
   \<and> (PreviousItemID e = [] \<longrightarrow> ''previous_item_id'' \<notin> keys (ToJson e))
   \<and> (ResponseID e = [] \<longrightarrow> ''response_id'' \<notin> keys (ToJson e))
   \<and> (OutputIndex e = 0 \<longrightarrow> ''output_index'' \<notin> keys (ToJson e))
   \<and> (ContentIndex e = 0 \<longrightarrow> ''content_index'' \<notin> keys (ToJson e))
   \<and> (Item e = None \<longrightarrow> ''item'' \<notin> keys (ToJson e))
   \<and> (ClientTimestamp e = 0 \<longrightarrow> ''client_timestamp'' \<notin> keys (ToJson e))
   \<and> (Transcript e = [] \<longrightarrow> ''transcript'' \<notin> keys (ToJson e))
   \<and> (Name e = [] \<longrightarrow> ''name'' \<notin> keys (ToJson e))
   \<and> (Arguments e = [] \<longrightarrow> ''arguments'' \<notin> keys (ToJson e))
   \<and> (VideoFrame e = [] \<longrightarrow> ''video_frame'' \<notin> keys (ToJson e))
   \<and> (Instructions e = [] \<longrightarrow> ''instructions'' \<notin> keys (ToJson e))
   \<and> (Error e = None \<longrightarrow> ''error'' \<notin> keys (ToJson e))
   \<and> (Conversation e = None \<longrightarrow> ''conversation'' \<notin> keys (ToJson e))"
proof -
  have k1: "EventID e = [] \<longrightarrow> ''event_id'' \<notin> keys (ToJson e)"
    by (rule impI, rule absent_key) (simp add: eventFields_def contrib)
  have k2: "Session e = None \<longrightarrow> ''session'' \<notin> keys (ToJson e)"
    by (rule impI, rule absent_key) (simp add: eventFields_def contrib)
  have k3: "Audio e = [] \<longrightarrow> ''audio'' \<notin> keys (ToJson e)"
    by (rule impI, rule absent_key) (simp add: eventFields_def contrib)
  have k4: "Response e = None \<longrightarrow> ''response'' \<notin> keys (ToJson e)"
    by (rule impI, rule absent_key) (simp add: eventFields_def contrib)
  have k5: "ItemID e = [] \<longrightarrow> ''item_id'' \<notin> keys (ToJson e)"
    by (rule impI, rule absent_key) (simp add: eventFields_def contrib)
  have k6: "PreviousItemID e = [] \<longrightarrow> ''previous_item_id'' \<notin> keys (ToJson e)"
    by (rule impI, rule absent_key) (simp add: eventFields_def contrib)
  have k7: "ResponseID e = [] \<longrightarrow> ''response_id'' \<notin> keys (ToJson e)"
    by (rule impI, rule absent_key) (simp add: eventFields_def contrib)
  have k8: "OutputIndex e = 0 \<longrightarrow> ''output_index'' \<notin> keys (ToJson e)"
    by (rule impI, rule absent_key) (simp add: eventFields_def contrib)
  have k9: "ContentIndex e = 0 \<longrightarrow> ''content_index'' \<notin> keys (ToJson e)"
    by (rule impI, rule absent_key) (simp add: eventFields_def contrib)
  have k10: "Item e = None \<longrightarrow> ''item'' \<notin> keys (ToJson e)"
    by (rule impI, rule absent_key) (simp add: eventFields_def contrib)
  have k11: "ClientTimestamp e = 0 \<longrightarrow> ''client_timestamp'' \<notin> keys (ToJson e)"
    by (rule impI, rule absent_key) (simp add: eventFields_def contrib)
  have k12: "Transcript e = [] \<longrightarrow> ''transcript'' \<notin> keys (ToJson e)"
    by (rule impI, rule absent_key) (simp add: eventFields_def contrib)
  have k13: "Name e = [] \<longrightarrow> ''name'' \<notin> keys (ToJson e)"
    by (rule impI, rule absent_key) (simp add: eventFields_def contrib)
  have k14: "Arguments e = [] \<longrightarrow> ''arguments'' \<notin> keys (ToJson e)"
    by (rule impI, rule absent_key) (simp add: eventFields_def contrib)
  have k15: "VideoFrame e = [] \<longrightarrow> ''video_frame'' \<notin> keys (ToJson e)"
    by (rule impI, rule absent_key) (simp add: eventFields_def contrib)
  have k16: "Instructions e = [] \<longrightarrow> ''instructions'' \<notin> keys (ToJson e)"
    by (rule impI, rule absent_key) (simp add: eventFields_def contrib)
  have k17: "Error e = None \<longrightarrow> ''error'' \<notin> keys (ToJson e)"
    by (rule impI, rule absent_key) (simp add: eventFields_def contrib)
  have k18: "Conversation e = None \<longrightarrow> ''conversation'' \<notin> keys (ToJson e)"
    by (rule impI, rule absent_key) (simp add: eventFields_def contrib)
  show ?thesis
    by (intro conjI untagged_keys k1 k2 k3 k4 k5 k6 k7 k8 k9 k10 k11 k12 k13 k14 k15 k16 k17 k18)
qed

lemma ToJson_zero_type:
  "ToJson (zeroEvent\<lparr>Type := ''response.create''\<rparr>)
     = ObjectText [(''type'', JString ''response.create''), (''delta'', JString [])]"
  by (simp add: ToJson_def Marshal_def field_defs zeroEvent_def)

theorem ToJson_omits_unset_keeps_delta_witness:
  "ToJson (zeroEvent\<lparr>Type := ''response.create''\<rparr>) \<noteq> EmptyString
   \<and> EventID (zeroEvent\<lparr>Type := ''response.create''\<rparr>) = []
   \<and> ClientTimestamp (zeroEvent\<lparr>Type := ''response.create''\<rparr>) = 0
   \<and> ''delta'' \<in> keys (ToJson (zeroEvent\<lparr>Type := ''response.create''\<rparr>))
   \<and> ''event_id'' \<notin> keys (ToJson (zeroEvent\<lparr>Type := ''response.create''\<rparr>))
   \<and> ''client_timestamp'' \<notin> keys (ToJson (zeroEvent\<lparr>Type := ''response.create''\<rparr>))"
proof -
  let ?e = "zeroEvent\<lparr>Type := ''response.create''\<rparr>"
  have a: "ToJson ?e \<noteq> EmptyString"
    by (simp add: ToJson_zero_type)
  have b: "EventID ?e = []" and c: "ClientTimestamp ?e = 0"
    by (simp_all add: zeroEvent_def)
  from ToJson_omits_unset_keeps_delta [of ?e] a b c show ?thesis
    by simp
qed

text \<open>
  C6, the counterexample. An event whose session cannot be encoded (a \<open>Temperature\<close> that
  is NaN, say) serializes to the empty string, which has no key \<open>delta\<close>.
\<close>

theorem ToJson_encoder_failure_drops_delta:
  "ToJson (zeroEvent\<lparr>Type := ''session.update'',
       Session := Some (Inl (MarshalError ''json: unsupported value: NaN''))\<rparr>) = EmptyString
   \<and> ''delta'' \<notin> keys (ToJson (zeroEvent\<lparr>Type := ''session.update'',
       Session := Some (Inl (MarshalError ''json: unsupported value: NaN''))\<rparr>))"
  by (simp add: ToJson_def Marshal_def field_defs zeroEvent_def)


subsection \<open>Send\<close>

text \<open>
  C2 (as amended). With no active connection \<open>Send\<close> returns the error "not connected" and
  touches neither the connection nor the event. When the write fails, \<open>Send\<close> returns the
  error of the write and leaves the client as it was: still connected, the connection not
  closed, nothing recorded as written.
\<close>

theorem Send_errors:
  "(\<not> isConnected r \<longrightarrow>
      Send now wr r ev = (Some (Errorf ''not connected''), r, ev))
   \<and> (isConnected r \<and> wr = Some err \<longrightarrow>
      fst (Send now wr r ev) = Some err \<and> fst (snd (Send now wr r ev)) = r)"
  by (simp add: Send_def Let_def)

theorem Send_errors_witness:
  "\<not> isConnected (NewRealtimeClient ''wss://host'' ''key'' None)
   \<and> Send 1700000000000 None (NewRealtimeClient ''wss://host'' ''key'' None) zeroEvent
       = (Some (Errorf ''not connected''), NewRealtimeClient ''wss://host'' ''key'' None, zeroEvent)
   \<and> isConnected (connected (NewRealtimeClient ''wss://host'' ''key'' None))
   \<and> fst (Send 1700000000000 (Some (ConnError ''broken pipe''))
            (connected (NewRealtimeClient ''wss://host'' ''key'' None)) zeroEvent)
       = Some (ConnError ''broken pipe'')
   \<and> fst (snd (Send 1700000000000 (Some (ConnError ''broken pipe''))
            (connected (NewRealtimeClient ''wss://host'' ''key'' None)) zeroEvent))
       = connected (NewRealtimeClient ''wss://host'' ''key'' None)"
proof -
  let ?r = "NewRealtimeClient ''wss://host'' ''key'' None"
  have a: "\<not> isConnected ?r"
    by (simp add: NewRealtimeClient_def)
  have b: "isConnected (connected ?r)"
    by (simp add: connected_def Connect_def NewRealtimeClient_def)
  from Send_errors [of ?r 1700000000000 None zeroEvent "ConnError ''broken pipe''"]
       Send_errors [of "connected ?r" 1700000000000 "Some (ConnError ''broken pipe'')" zeroEvent
                       "ConnError ''broken pipe''"]
       a b
  show ?thesis by simp
qed

text \<open>
  C2, the counterexample. After a failed write the client is still connected and its
  connection is not closed, and the receive loop goes on reading.
\<close>

theorem Send_write_failure_keeps_connection:
  "isConnected (fst (snd (Send 1700000000000 (Some (ConnError ''broken pipe''))
       (connected (NewRealtimeClient ''wss://host'' ''key'' None)) zeroEvent)))
   \<and> \<not> closed (conn (fst (snd (Send 1700000000000 (Some (ConnError ''broken pipe''))
       (connected (NewRealtimeClient ''wss://host'' ''key'' None)) zeroEvent))))
   \<and> fst (readWsMsg (\<lambda>m. Inr zeroEvent)
       \<lparr>client = fst (snd (Send 1700000000000 (Some (ConnError ''broken pipe''))
          (connected (NewRealtimeClient ''wss://host'' ''key'' None)) zeroEvent)), trace = []\<rparr>
       [Message ''{}'']) = Reading"
  by (simp add: Send_def connected_def Connect_def NewRealtimeClient_def)

text \<open>
  C9 (as amended). On an active connection \<open>Send\<close> sets the timestamp of an event whose
  timestamp is 0 or negative to the current time and changes no other field; it leaves an
  event with a positive timestamp as it is; and when the write succeeds, the frame
  written is the serialization of the event after this step. With no active connection
  \<open>Send\<close> leaves the event as it is.
\<close>

theorem Send_timestamp:
  "(isConnected r \<and> ClientTimestamp ev \<le> 0 \<longrightarrow>
      snd (snd (Send now wr r ev)) = ev\<lparr>ClientTimestamp := now\<rparr>)
   \<and> (isConnected r \<and> 0 < ClientTimestamp ev \<longrightarrow>
      snd (snd (Send now wr r ev)) = ev)
   \<and> (isConnected r \<and> wr = None \<longrightarrow>
      written (conn (fst (snd (Send now wr r ev))))
        = written (conn r) @ [ToJson (snd (snd (Send now wr r ev)))])
   \<and> (\<not> isConnected r \<longrightarrow> snd (snd (Send now wr r ev)) = ev)"
  by (simp add: Send_def Let_def split: option.splits)

theorem Send_timestamp_witness:
  "isConnected (connected (NewRealtimeClient ''wss://host'' ''key'' None))
   \<and> snd (snd (Send 1700000000000 None (connected (NewRealtimeClient ''wss://host'' ''key'' None))
        zeroEvent)) = zeroEvent\<lparr>ClientTimestamp := 1700000000000\<rparr>
   \<and> snd (snd (Send 1700000000000 None (connected (NewRealtimeClient ''wss://host'' ''key'' None))
        (zeroEvent\<lparr>ClientTimestamp := 5\<rparr>))) = zeroEvent\<lparr>ClientTimestamp := 5\<rparr>
   \<and> written (conn (fst (snd (Send 1700000000000 None
        (connected (NewRealtimeClient ''wss://host'' ''key'' None)) zeroEvent))))
       = [ToJson (zeroEvent\<lparr>ClientTimestamp := 1700000000000\<rparr>)]
   \<and> snd (snd (Send 1700000000000 None (NewRealtimeClient ''wss://host'' ''key'' None)
        zeroEvent)) = zeroEvent"
proof -
  let ?r = "NewRealtimeClient ''wss://host'' ''key'' None"
  have a: "\<not> isConnected ?r"
    by (simp add: NewRealtimeClient_def)
  have b: "isConnected (connected ?r)" and w: "written (conn (connected ?r)) = []"
    by (simp_all add: connected_def Connect_def NewRealtimeClient_def)
  have c: "ClientTimestamp zeroEvent \<le> 0" and d: "0 < ClientTimestamp (zeroEvent\<lparr>ClientTimestamp := 5\<rparr>)"
    by (simp_all add: zeroEvent_def)
  from Send_timestamp [of "connected ?r" zeroEvent 1700000000000 None]
       Send_timestamp [of "connected ?r" "zeroEvent\<lparr>ClientTimestamp := 5\<rparr>" 1700000000000 None]
       Send_timestamp [of ?r zeroEvent 1700000000000 None]
       a b c d w
  show ?thesis by simp
qed

text \<open>
  C9, the counterexample. Without a connection an event with no timestamp is not stamped;
  and a timestamp the caller set to \<open>-1\<close> is overwritten.
\<close>

theorem Send_timestamp_not_as_set:
  "ClientTimestamp (snd (snd (Send 1700000000000 None
       (NewRealtimeClient ''wss://host'' ''key'' None) zeroEvent))) = 0
   \<and> ClientTimestamp (snd (snd (Send 1700000000000 None
       (connected (NewRealtimeClient ''wss://host'' ''key'' None))
       (zeroEvent\<lparr>ClientTimestamp := - 1\<rparr>)))) = 1700000000000"
  by (simp add: Send_def Let_def connected_def Connect_def NewRealtimeClient_def zeroEvent_def)

subsection \<open>The receive loop\<close>

text \<open>
  C10. With no callback, a connected loop that reads any number of frames skips each of
  them, neither decoding nor delivering it, and is still reading afterwards: the client
  is unchanged, so it is still connected and its connection is not closed.
\<close>

theorem readWsMsg_nil_callback:
  assumes "onReceived (client s) = None" and "isConnected (client s)"
  shows "readWsMsg unmarshal s (map Message ms)
           = (Reading, s\<lparr>trace := trace s @ map Skipped ms\<rparr>)"
  using assms by (induction ms arbitrary: s) auto

theorem readWsMsg_nil_callback_witness:
  "readWsMsg (\<lambda>m. Inr zeroEvent)
     \<lparr>client = connected (NewRealtimeClient ''wss://host'' ''key'' None), trace = []\<rparr>
     [Message ''{\"type\":\"session.created\"}'', Message ''{\"type\":\"response.done\"}'']
   = (Reading,
      \<lparr>client = connected (NewRealtimeClient ''wss://host'' ''key'' None),
       trace = [Skipped ''{\"type\":\"session.created\"}'', Skipped ''{\"type\":\"response.done\"}'']\<rparr>)"
proof -
  let ?s = "\<lparr>client = connected (NewRealtimeClient ''wss://host'' ''key'' None), trace = []\<rparr>"
  have a: "onReceived (client ?s) = None" and b: "isConnected (client ?s)"
    by (simp_all add: connected_def Connect_def NewRealtimeClient_def)
  from readWsMsg_nil_callback [OF a b, of "\<lambda>m. Inr zeroEvent"
      "[''{\"type\":\"session.created\"}'', ''{\"type\":\"response.done\"}'']"]
  show ?thesis by simp
qed

section \<open>Properties of the number model\<close>

lemma excess_small: "n < 2 ^ 53 \<Longrightarrow> excess n = 0"
  by (subst excess.simps) simp

lemma round53_exact: "\<bar>m\<bar> < 2 ^ 53 \<Longrightarrow> round53 m e = Dyadic m e"
  by (simp add: round53_def excess_small)

lemma default_end: "fsub double_0_85 double_0_25 = double_0_6"
  by (simp add: double_0_85_def double_0_25_def double_0_6_def round53_exact)

lemma pow2_powi: "pow2 e = 2 powi e"
  by (simp add: pow2_def power_int_def power_one_over inverse_eq_divide)

lemma pow2_add: "pow2 (a + b) = pow2 a * pow2 b"
  by (simp add: pow2_powi power_int_add)

lemma pow2_pos: "0 < pow2 e"
  by (simp add: pow2_def)

lemma pow2_nat: "0 \<le> n \<Longrightarrow> real_of_int (2 ^ nat n) = pow2 n"
  by (simp add: pow2_def)

lemma fsub_quarter_exact:
  assumes m: "\<bar>m\<bar> < 2 ^ 53"
    and lo: "1 / 8 \<le> real_of_int m * pow2 e" and hi: "real_of_int m * pow2 e \<le> 1"
  shows "\<exists>n f. fsub (Dyadic m e) double_0_25 = Dyadic n f
           \<and> real_of_int n * pow2 f = real_of_int m * pow2 e - 1 / 4"
proof -
  define g where "g = min e (- 2)"
  define M where "M = m * 2 ^ nat (e - g) - 1 * 2 ^ nat (- 2 - g)"
  have ge: "0 \<le> e - g" and g2: "0 \<le> - 2 - g"
    by (simp_all add: g_def)
  have rM: "real_of_int M = real_of_int m * pow2 (e - g) - pow2 (- 2 - g)"
    using pow2_nat [OF ge] pow2_nat [OF g2] by (simp add: M_def)
  have q: "pow2 (- 2) = 1 / 4"
    by (simp add: pow2_def)
  have "pow2 (e - g) * pow2 g = pow2 e" and "pow2 (- 2 - g) * pow2 g = pow2 (- 2)"
    using pow2_add [of "e - g" g] pow2_add [of "- 2 - g" g] by simp_all
  then have val: "real_of_int M * pow2 g = real_of_int m * pow2 e - 1 / 4"
    by (simp add: rM q algebra_simps)
  have mpos: "0 < m"
  proof -
    have "0 < real_of_int m * pow2 e" using lo by simp
    then have "0 < real_of_int m" using pow2_pos [of e] by (simp add: zero_less_mult_iff)
    then show ?thesis by simp
  qed
  have bound: "\<bar>real_of_int M\<bar> < 2 ^ 53"
  proof (cases "e \<ge> - 2")
    case True
    then have g: "g = - 2" by (simp add: g_def)
    have "pow2 (e + 2) = pow2 e * 4"
      using pow2_add [of e 2] by (simp add: pow2_def)
    then have "real_of_int M = 4 * (real_of_int m * pow2 e) - 1"
      by (simp add: rM g pow2_def)
    then show ?thesis using lo hi by simp
  next
    case False
    then have g: "g = e" by (simp add: g_def)
    have r: "real_of_int M = real_of_int m - pow2 (- 2 - e)"
      by (simp add: rM g pow2_def)
    have "pow2 (- 2 - e) * pow2 e = 1 / 4"
      using pow2_add [of "- 2 - e" e] q by simp
    then have "pow2 (- 2 - e) * pow2 e \<le> 2 * (real_of_int m * pow2 e)"
      using lo by simp
    then have "pow2 (- 2 - e) \<le> 2 * real_of_int m"
      using pow2_pos [of e] by (simp add: mult.assoc [symmetric])
    moreover have "0 < pow2 (- 2 - e)" by (rule pow2_pos)
    moreover have "real_of_int m < 2 ^ 53"
    proof -
      from m mpos have "m < 2 ^ 53" by simp
      then have "real_of_int m < real_of_int (2 ^ 53)"
        by (rule iffD2 [OF of_int_less_iff])
      then show ?thesis by simp
    qed
    ultimately show ?thesis
      using mpos by (simp add: r abs_less_iff)
  qed
  have "\<bar>M\<bar> < 2 ^ 53"
  proof -
    have "real_of_int \<bar>M\<bar> < real_of_int (2 ^ 53)"
      using bound by simp
    then show ?thesis
      by (rule iffD1 [OF of_int_less_iff])
  qed
  then have "fsub (Dyadic m e) double_0_25 = Dyadic M g"
    by (simp add: double_0_25_def Let_def round53_exact M_def g_def)
  with val show ?thesis by blast
qed

section \<open>Properties of the capture segmenter\<close>

lemma FixedQueue_append_queue:
  assumes "0 < capacity q" and "length (queue q) \<le> capacity q"
  shows "queue (FixedQueue_append x q)
           = drop (length (queue q @ [x]) - capacity q) (queue q @ [x])"
    and "capacity (FixedQueue_append x q) = capacity q"
    and "length (queue (FixedQueue_append x q)) \<le> capacity q"
proof -
  show "queue (FixedQueue_append x q)
           = drop (length (queue q @ [x]) - capacity q) (queue q @ [x])"
  proof (cases "length (queue q) \<ge> capacity q")
    case True
    with assms have len: "length (queue q) = capacity q" by simp
    with assms obtain y ys where q: "queue q = y # ys" by (cases "queue q") auto
    with len show ?thesis by (simp add: FixedQueue_append_def)
  next
    case False
    then show ?thesis by (simp add: FixedQueue_append_def)
  qed
  show "capacity (FixedQueue_append x q) = capacity q"
    by (simp add: FixedQueue_append_def)
  show "length (queue (FixedQueue_append x q)) \<le> capacity q"
    using assms by (cases "queue q") (auto simp: FixedQueue_append_def)
qed

lemma keep_last:
  "drop (length (drop (length ys - n) ys @ fs) - n) (drop (length ys - n) ys @ fs)
     = drop (length (ys @ fs) - n) (ys @ fs)"
proof -
  have e: "drop (length ys - n) ys @ fs = drop (length ys - n) (ys @ fs)"
    by simp
  have a: "length (ys @ fs) - (length ys - n) - n + (length ys - n) = length (ys @ fs) - n"
    by (cases "n \<le> length ys") simp_all
  show ?thesis
    unfolding e by (simp only: drop_drop length_drop a)
qed

lemma frames_idle:
  assumes "\<not> speeching v" and "0 < capacity (aheadChunks v)"
    and "length (queue (aheadChunks v)) \<le> capacity (aheadChunks v)"
  shows "frames pre v =
           v\<lparr>aheadChunks := (aheadChunks v)\<lparr>queue :=
                drop (length (queue (aheadChunks v) @ pre) - capacity (aheadChunks v))
                     (queue (aheadChunks v) @ pre)\<rparr>\<rparr>"
  using assms
proof (induction pre arbitrary: v)
  case Nil
  then show ?case by simp
next
  case (Cons f fs)
  let ?q = "aheadChunks v"
  let ?v1 = "onFrameProcessed f v"
  have v1: "?v1 = v\<lparr>aheadChunks := FixedQueue_append f ?q\<rparr>"
    using Cons.prems by (simp add: onFrameProcessed_def)
  note fq = FixedQueue_append_queue [OF Cons.prems(2) Cons.prems(3), of f]
  have "frames fs ?v1 =
          ?v1\<lparr>aheadChunks := (aheadChunks ?v1)\<lparr>queue :=
                drop (length (queue (aheadChunks ?v1) @ fs) - capacity (aheadChunks ?v1))
                     (queue (aheadChunks ?v1) @ fs)\<rparr>\<rparr>"
    using Cons.prems fq by (intro Cons.IH) (simp_all add: v1)
  moreover have "drop (length (queue (aheadChunks ?v1) @ fs) - capacity (aheadChunks ?v1))
                     (queue (aheadChunks ?v1) @ fs)
      = drop (length (queue ?q @ f # fs) - capacity ?q) (queue ?q @ f # fs)"
    using keep_last [of "queue ?q @ [f]" "capacity ?q" fs] fq(1) fq(2)
    by (simp add: v1)
  ultimately show ?case
    by (simp add: v1 FixedQueue_append_def)
qed

lemma foldl_concat: "foldl concatFloat32Array a xs = a @ concat xs"
  by (induction xs arbitrary: a) (simp_all add: concatFloat32Array_def)

lemma first_speaking_frame:
  assumes "speeching v" and "speechStart v"
  shows "onFrameProcessed g v =
           call (onFrameProcess (options v))
             (OnFrameProcess (concat (queue (aheadChunks v)) @ g))
             (v\<lparr>recordPCMPart := concat (queue (aheadChunks v)) @ g, speechStart := False,
                aheadChunks := (aheadChunks v)\<lparr>queue := []\<rparr>\<rparr>)"
  using assms
  by (cases "queue (aheadChunks v)")
     (simp_all add: onFrameProcessed_def Let_def FixedQueue_length_def getQueue_def
        FixedQueue_clear_def foldl_concat concatFloat32Array_def call_def)

lemma frames_speaking:
  assumes "speeching v" and "\<not> speechStart v"
  shows "frames gs v =
           v\<lparr>recordPCMPart := recordPCMPart v @ concat gs,
             calls := calls v @ (if onFrameProcess (options v) then map OnFrameProcess gs else [])\<rparr>"
  using assms
proof (induction gs arbitrary: v)
  case Nil
  then show ?case by simp
next
  case (Cons g gs)
  have step: "onFrameProcessed g v =
      call (onFrameProcess (options v)) (OnFrameProcess g)
        (v\<lparr>recordPCMPart := recordPCMPart v @ g\<rparr>)"
    using Cons.prems by (simp add: onFrameProcessed_def Let_def concatFloat32Array_def)
  have "frames gs (onFrameProcessed g v) =
      (onFrameProcessed g v)\<lparr>recordPCMPart := recordPCMPart (onFrameProcessed g v) @ concat gs,
         calls := calls (onFrameProcessed g v)
            @ (if onFrameProcess (options (onFrameProcessed g v)) then map OnFrameProcess gs else [])\<rparr>"
    using Cons.prems by (intro Cons.IH) (simp_all add: step call_def)
  then show ?case
    by (simp add: step call_def)
qed



lemma frames_append: "frames (xs @ ys) v = frames ys (frames xs v)"
  by (induction xs arbitrary: v) simp_all

lemma segment_after_start:
  assumes "\<not> speeching v" and "queue (aheadChunks v) = []"
    and "0 < capacity (aheadChunks v)"
    and "revokeSpeechStart (options v) \<noteq> Some True"
    and "post \<noteq> []"
  shows "recordPCMPart (frames post (handleSpeechStart (frames pre v)))
           = concat (drop (length pre - capacity (aheadChunks v)) pre) @ concat post"
    and "queue (aheadChunks (frames post (handleSpeechStart (frames pre v)))) = []"
    and "\<not> speechStart (frames post (handleSpeechStart (frames pre v)))"
    and "speeching (frames post (handleSpeechStart (frames pre v)))"
    and "options (frames post (handleSpeechStart (frames pre v))) = options v"
    and "calls (frames post (handleSpeechStart (frames pre v)))
           = calls v @ (if onSpeechStart (options v) then [OnSpeechStart] else [])
             @ (if onFrameProcess (options v)
                then OnFrameProcess
                       (concat (drop (length pre - capacity (aheadChunks v)) pre) @ hd post)
                     # map OnFrameProcess (tl post)
                else [])"
proof -
  let ?n = "capacity (aheadChunks v)"
  let ?roll = "drop (length pre - ?n) pre"
  from assms(5) obtain g gs where post: "post = g # gs"
    by (cases post) auto
  define v1 where "v1 = frames pre v"
  define v2 where "v2 = handleSpeechStart v1"
  define v3 where "v3 = onFrameProcessed g v2"
  define v4 where "v4 = frames gs v3"
  have v1: "v1 = v\<lparr>aheadChunks := (aheadChunks v)\<lparr>queue := ?roll\<rparr>\<rparr>"
    unfolding v1_def using frames_idle [of v pre] assms by simp
  have v2: "v2 = call (onSpeechStart (options v)) OnSpeechStart
                   (v1\<lparr>speechStart := True, speeching := True\<rparr>)"
    unfolding v2_def using assms(4) by (simp add: handleSpeechStart_def v1)
  have s2: "speeching v2" "speechStart v2" "queue (aheadChunks v2) = ?roll"
    "options v2 = options v"
    "calls v2 = calls v @ (if onSpeechStart (options v) then [OnSpeechStart] else [])"
    by (simp_all add: v2 v1 call_def)
  have v3: "v3 = call (onFrameProcess (options v)) (OnFrameProcess (concat ?roll @ g))
                   (v2\<lparr>recordPCMPart := concat ?roll @ g, speechStart := False,
                       aheadChunks := (aheadChunks v2)\<lparr>queue := []\<rparr>\<rparr>)"
    unfolding v3_def using first_speaking_frame [OF s2(1) s2(2), of g] s2(3) s2(4) by simp
  have s3: "speeching v3" "\<not> speechStart v3" "queue (aheadChunks v3) = []"
    "options v3 = options v" "recordPCMPart v3 = concat ?roll @ g"
    "calls v3 = calls v2
       @ (if onFrameProcess (options v) then [OnFrameProcess (concat ?roll @ g)] else [])"
    using s2 by (simp_all add: v3 call_def)
  have v4: "v4 = v3\<lparr>recordPCMPart := recordPCMPart v3 @ concat gs,
                    calls := calls v3
                      @ (if onFrameProcess (options v3) then map OnFrameProcess gs else [])\<rparr>"
    unfolding v4_def using frames_speaking [OF s3(1) s3(2)] by simp
  have run: "frames post (handleSpeechStart (frames pre v)) = v4"
    by (simp add: post v4_def v3_def v2_def v1_def)
  show "recordPCMPart (frames post (handleSpeechStart (frames pre v)))
           = concat ?roll @ concat post"
    unfolding run by (simp add: v4 s3 post)
  show "queue (aheadChunks (frames post (handleSpeechStart (frames pre v)))) = []"
    and "\<not> speechStart (frames post (handleSpeechStart (frames pre v)))"
    and "speeching (frames post (handleSpeechStart (frames pre v)))"
    and "options (frames post (handleSpeechStart (frames pre v))) = options v"
    unfolding run using s3 by (simp_all add: v4)
  show "calls (frames post (handleSpeechStart (frames pre v)))
           = calls v @ (if onSpeechStart (options v) then [OnSpeechStart] else [])
             @ (if onFrameProcess (options v)
                then OnFrameProcess (concat ?roll @ hd post) # map OnFrameProcess (tl post)
                else [])"
    unfolding run by (simp add: v4 s3 s2 post)
qed

lemma state_at_start:
  assumes "\<not> speeching v" and "queue (aheadChunks v) = []"
    and "0 < capacity (aheadChunks v)"
    and "revokeSpeechStart (options v) \<noteq> Some True"
  shows "speeching (handleSpeechStart (frames pre v))"
    and "speechStart (handleSpeechStart (frames pre v))"
    and "queue (aheadChunks (handleSpeechStart (frames pre v)))
           = drop (length pre - capacity (aheadChunks v)) pre"
    and "recordPCMPart (handleSpeechStart (frames pre v)) = recordPCMPart v"
proof -
  have v1: "frames pre v = v\<lparr>aheadChunks := (aheadChunks v)\<lparr>queue :=
               drop (length pre - capacity (aheadChunks v)) pre\<rparr>\<rparr>"
    using frames_idle [of v pre] assms by simp
  show "speeching (handleSpeechStart (frames pre v))"
    and "speechStart (handleSpeechStart (frames pre v))"
    and "queue (aheadChunks (handleSpeechStart (frames pre v)))
           = drop (length pre - capacity (aheadChunks v)) pre"
    and "recordPCMPart (handleSpeechStart (frames pre v)) = recordPCMPart v"
    using assms(4) by (simp_all add: v1 handleSpeechStart_def call_def)
qed

lemma handleSpeechEnd_forced:
  assumes "revokeSpeechEnd (options x) \<noteq> Some True"
  shows "handleSpeechEnd x =
           x\<lparr>speeching := False,
             calls := calls x @ (if onSpeechEnd (options x) then [OnSpeechEnd] else []),
             aheadChunks := (aheadChunks x)\<lparr>queue := []\<rparr>\<rparr>"
  using assms by (simp add: handleSpeechEnd_def call_def Let_def FixedQueue_clear_def)

subsection \<open>The classifier driving the segmenter\<close>

lemma transitions_index:
  "(n, t) \<in> set (transitions cfg c i ps) \<Longrightarrow> i \<le> n \<and> n < i + length ps"
proof (induction ps arbitrary: c i)
  case Nil
  then show ?case by simp
next
  case (Cons p ps)
  obtain r c' where cl: "classify cfg p c = (r, c')"
    by (cases "classify cfg p c")
  show ?case
  proof (cases r)
    case None
    with Cons.prems cl have "(n, t) \<in> set (transitions cfg c' (i + 1) ps)"
      by simp
    from Cons.IH [OF this] show ?thesis by simp
  next
    case (Some u)
    with Cons.prems cl
    have "(n, t) = (i, u) \<or> (n, t) \<in> set (transitions cfg c' (i + 1) ps)"
      by simp
    then show ?thesis
    proof
      assume "(n, t) = (i, u)"
      then show ?thesis by simp
    next
      assume "(n, t) \<in> set (transitions cfg c' (i + 1) ps)"
      from Cons.IH [OF this] show ?thesis by simp
    qed
  qed
qed

lemma transitions_append:
  "transitions cfg c i (ps @ qs)
     = transitions cfg c i ps @ transitions cfg (after cfg c ps) (i + length ps) qs"
proof (induction ps arbitrary: c i)
  case Nil
  then show ?case by simp
next
  case (Cons p ps)
  obtain r c' where cl: "classify cfg p c = (r, c')"
    by (cases "classify cfg p c")
  show ?case
    using Cons.IH [of c' "i + 1"] cl by (cases r) simp_all
qed

lemma after_append: "after cfg c (ps @ qs) = after cfg (after cfg c ps) qs"
  by (induction ps arbitrary: c) simp_all

lemma pipeline_quiet:
  "transitions cfg c i (map fst xs) = [] \<Longrightarrow>
     pipeline cfg c v xs = (after cfg c (map fst xs), frames (map snd xs) v)"
proof (induction xs arbitrary: c v i)
  case Nil
  then show ?case by simp
next
  case (Cons x xs)
  obtain p f where x: "x = (p, f)" by (cases x)
  obtain r c' where cl: "classify cfg p c = (r, c')"
    by (cases "classify cfg p c")
  show ?case
  proof (cases r)
    case None
    with Cons.prems x cl have "transitions cfg c' (i + 1) (map fst xs) = []"
      by simp
    from Cons.IH [OF this, of "onFrameProcessed f v"] show ?thesis
      using x cl None by (simp add: Let_def)
  next
    case (Some u)
    with Cons.prems x cl show ?thesis by simp
  qed
qed

lemma pipeline_append:
  "pipeline cfg c v (xs @ ys)
     = pipeline cfg (fst (pipeline cfg c v xs)) (snd (pipeline cfg c v xs)) ys"
proof (induction xs arbitrary: c v)
  case Nil
  then show ?case by simp
next
  case (Cons x xs)
  obtain p f where x: "x = (p, f)" by (cases x)
  obtain r c' where cl: "classify cfg p c = (r, c')"
    by (cases "classify cfg p c")
  show ?case
  proof (cases r)
    case None
    then show ?thesis using Cons.IH x cl by (simp add: Let_def)
  next
    case (Some u)
    then show ?thesis using Cons.IH x cl by (cases u) (simp_all add: Let_def)
  qed
qed

lemma pipeline_step:
  assumes "fst (classify cfg p c) = Some u"
  shows "pipeline cfg c v [(p, f)]
           = (snd (classify cfg p c),
              (case u of SpeechStart \<Rightarrow> handleSpeechStart | SpeechEnd \<Rightarrow> handleSpeechEnd)
                (onFrameProcessed f v))"
  using assms by (cases "classify cfg p c"; cases u) (simp_all add: Let_def)

lemma transitions_two:
  assumes "transitions cfg c 0 (P @ pk # M @ pj # R)
             = [(length P, SpeechStart), (length P + 1 + length M, SpeechEnd)]"
  shows "transitions cfg c 0 P = []"
    and "fst (classify cfg pk (after cfg c P)) = Some SpeechStart"
    and "transitions cfg (after cfg c (P @ [pk])) (Suc (length P)) M = []"
    and "fst (classify cfg pj (after cfg c (P @ pk # M))) = Some SpeechEnd"
proof -
  let ?k = "length P"
  let ?j = "length P + 1 + length M"
  let ?c1 = "after cfg c P"
  define A where "A = transitions cfg c 0 P"
  define B where "B = transitions cfg ?c1 ?k (pk # M @ pj # R)"
  have AB: "A @ B = [(?k, SpeechStart), (?j, SpeechEnd)]"
    using assms transitions_append [of cfg c 0 P "pk # M @ pj # R"]
    by (simp add: A_def B_def)
  show A: "transitions cfg c 0 P = []"
  proof (rule ccontr)
    assume "transitions cfg c 0 P \<noteq> []"
    then obtain a as where a: "A = a # as"
      unfolding A_def by (cases "transitions cfg c 0 P") auto
    with AB have "a = (?k, SpeechStart)" by simp
    then have "(?k, SpeechStart) \<in> set (transitions cfg c 0 P)"
      using a by (simp add: A_def)
    from transitions_index [OF this] show False by simp
  qed
  then have B: "B = [(?k, SpeechStart), (?j, SpeechEnd)]"
    using AB by (simp add: A_def)
  obtain r c2 where cl: "classify cfg pk ?c1 = (r, c2)"
    by (cases "classify cfg pk ?c1")
  have r: "r = Some SpeechStart"
    and rest: "transitions cfg c2 (Suc ?k) (M @ pj # R) = [(?j, SpeechEnd)]"
  proof -
    show "r = Some SpeechStart"
    proof (cases r)
      case None
      then have "B = transitions cfg c2 (?k + 1) (M @ pj # R)"
        using cl by (simp add: B_def)
      with B have "(?k, SpeechStart) \<in> set (transitions cfg c2 (?k + 1) (M @ pj # R))"
        by simp
      from transitions_index [OF this] show ?thesis by simp
    next
      case (Some u)
      then show ?thesis using B cl by (simp add: B_def)
    qed
    then show "transitions cfg c2 (Suc ?k) (M @ pj # R) = [(?j, SpeechEnd)]"
      using B cl by (simp add: B_def)
  qed
  show "fst (classify cfg pk ?c1) = Some SpeechStart"
    using cl r by simp
  have c2: "after cfg c (P @ [pk]) = c2"
    using cl by (simp add: after_append)
  let ?c3 = "after cfg c2 M"
  define A' where "A' = transitions cfg c2 (Suc ?k) M"
  define B' where "B' = transitions cfg ?c3 ?j (pj # R)"
  have AB': "A' @ B' = [(?j, SpeechEnd)]"
    using rest transitions_append [of cfg c2 "Suc ?k" M "pj # R"]
    by (simp add: A'_def B'_def)
  have A': "A' = []"
  proof (rule ccontr)
    assume "A' \<noteq> []"
    then obtain a as where a: "A' = a # as" by (cases A') auto
    with AB' have "a = (?j, SpeechEnd)" by simp
    then have "(?j, SpeechEnd) \<in> set (transitions cfg c2 (Suc ?k) M)"
      using a by (simp add: A'_def)
    from transitions_index [OF this] show False by simp
  qed
  then show "transitions cfg (after cfg c (P @ [pk])) (Suc (length P)) M = []"
    by (simp add: A'_def c2)
  have B': "B' = [(?j, SpeechEnd)]"
    using AB' A' by simp
  obtain r' c4 where cl': "classify cfg pj ?c3 = (r', c4)"
    by (cases "classify cfg pj ?c3")
  have "r' = Some SpeechEnd"
  proof (cases r')
    case None
    then have "B' = transitions cfg c4 (?j + 1) R"
      using cl' by (simp add: B'_def)
    with B' have "(?j, SpeechEnd) \<in> set (transitions cfg c4 (?j + 1) R)"
      by simp
    from transitions_index [OF this] show ?thesis by simp
  next
    case (Some u)
    then show ?thesis using B' cl' by (simp add: B'_def)
  qed
  moreover have "after cfg c (P @ pk # M) = ?c3"
    using cl by (simp add: after_append)
  ultimately show "fst (classify cfg pj (after cfg c (P @ pk # M))) = Some SpeechEnd"
    using cl' by simp
qed

lemma pipeline_to_start:
  assumes "transitions cfg c 0 (map fst pre) = []"
    and "fst (classify cfg pk (after cfg c (map fst pre))) = Some SpeechStart"
  shows "pipeline cfg c v (pre @ [(pk, fk)])
           = (after cfg c (map fst pre @ [pk]),
              handleSpeechStart (frames (map snd pre @ [fk]) v))"
proof -
  have "pipeline cfg c v pre = (after cfg c (map fst pre), frames (map snd pre) v)"
    using pipeline_quiet [OF assms(1)] .
  then show ?thesis
    using pipeline_append [of cfg c v pre "[(pk, fk)]"]
      pipeline_step [OF assms(2), of "frames (map snd pre) v" fk]
    by (simp add: frames_append after_append)
qed

lemma pipeline_to_end:
  assumes "transitions cfg c 0 (map fst pre) = []"
    and "fst (classify cfg pk (after cfg c (map fst pre))) = Some SpeechStart"
    and "transitions cfg (after cfg c (map fst pre @ [pk])) (Suc (length pre)) (map fst mid) = []"
    and "fst (classify cfg pj (after cfg c (map fst pre @ pk # map fst mid))) = Some SpeechEnd"
  shows "snd (pipeline cfg c v (pre @ (pk, fk) # mid @ [(pj, fj)]))
           = handleSpeechEnd (frames (map snd mid @ [fj])
               (handleSpeechStart (frames (map snd pre @ [fk]) v)))"
proof -
  let ?c2 = "after cfg c (map fst pre @ [pk])"
  let ?v2 = "handleSpeechStart (frames (map snd pre @ [fk]) v)"
  have a: "pipeline cfg c v (pre @ [(pk, fk)]) = (?c2, ?v2)"
    using pipeline_to_start [OF assms(1) assms(2)] .
  have b: "pipeline cfg ?c2 ?v2 mid = (after cfg ?c2 (map fst mid), frames (map snd mid) ?v2)"
    using pipeline_quiet [OF assms(3)] .
  have c3: "after cfg ?c2 (map fst mid) = after cfg c (map fst pre @ pk # map fst mid)"
    by (simp add: after_append)
  have d: "pipeline cfg (after cfg ?c2 (map fst mid)) (frames (map snd mid) ?v2) [(pj, fj)]
      = (snd (classify cfg pj (after cfg ?c2 (map fst mid))),
         handleSpeechEnd (onFrameProcessed fj (frames (map snd mid) ?v2)))"
    using pipeline_step [of cfg pj "after cfg ?c2 (map fst mid)" SpeechEnd] assms(4) c3
    by simp
  have split: "pre @ (pk, fk) # mid @ [(pj, fj)] = (pre @ [(pk, fk)]) @ mid @ [(pj, fj)]"
    by simp
  show ?thesis
    unfolding split
    using a b d pipeline_append [of cfg c v "pre @ [(pk, fk)]" "mid @ [(pj, fj)]"]
      pipeline_append [of cfg ?c2 ?v2 mid "[(pj, fj)]"]
    by (simp add: frames_append)
qed

lemma sealed_segment:
  assumes "transitions cfg c 0 (map fst (pre @ (pk, fk) # mid @ (pj, fj) # rest))
             = [(length pre, SpeechStart), (length pre + 1 + length mid, SpeechEnd)]"
    and "\<not> speeching v" and "queue (aheadChunks v) = []"
    and "0 < capacity (aheadChunks v)"
    and "revokeSpeechStart (options v) \<noteq> Some True"
    and "revokeSpeechEnd (options v) \<noteq> Some True"
  shows "recordPCMPart (snd (pipeline cfg c v (pre @ (pk, fk) # mid @ [(pj, fj)])))
           = concat (drop (Suc (length pre) - capacity (aheadChunks v)) (map snd pre @ [fk]))
             @ concat (map snd mid @ [fj])
       \<and> length (drop (Suc (length pre) - capacity (aheadChunks v)) (map snd pre @ [fk]))
           = min (capacity (aheadChunks v)) (Suc (length pre))
       \<and> \<not> speeching (snd (pipeline cfg c v (pre @ (pk, fk) # mid @ [(pj, fj)])))
       \<and> queue (aheadChunks (snd (pipeline cfg c v (pre @ (pk, fk) # mid @ [(pj, fj)])))) = []
       \<and> calls (snd (pipeline cfg c v (pre @ (pk, fk) # mid @ [(pj, fj)])))
           = calls v @ (if onSpeechStart (options v) then [OnSpeechStart] else [])
             @ (if onFrameProcess (options v)
                then OnFrameProcess
                       (concat (drop (Suc (length pre) - capacity (aheadChunks v))
                                  (map snd pre @ [fk]))
                        @ hd (map snd mid @ [fj]))
                     # map OnFrameProcess (tl (map snd mid @ [fj]))
                else [])
             @ (if onSpeechEnd (options v) then [OnSpeechEnd] else [])
       \<and> speeching (snd (pipeline cfg c v (pre @ [(pk, fk)])))
       \<and> queue (aheadChunks (snd (pipeline cfg c v (pre @ [(pk, fk)]))))
           = drop (Suc (length pre) - capacity (aheadChunks v)) (map snd pre @ [fk])
       \<and> recordPCMPart (snd (pipeline cfg c v (pre @ [(pk, fk)]))) = recordPCMPart v"
proof -
  let ?pre = "map snd pre @ [fk]"
  let ?post = "map snd mid @ [fj]"
  let ?roll = "drop (Suc (length pre) - capacity (aheadChunks v)) ?pre"
  let ?x = "frames ?post (handleSpeechStart (frames ?pre v))"
  have tr: "transitions cfg c 0 (map fst pre @ pk # map fst mid @ pj # map fst rest)
             = [(length (map fst pre), SpeechStart),
                (length (map fst pre) + 1 + length (map fst mid), SpeechEnd)]"
    using assms(1) by simp
  note t = transitions_two [OF tr]
  have t3: "transitions cfg (after cfg c (map fst pre @ [pk])) (Suc (length pre)) (map fst mid) = []"
    using t(3) by simp
  have fin: "snd (pipeline cfg c v (pre @ (pk, fk) # mid @ [(pj, fj)])) = handleSpeechEnd ?x"
    using pipeline_to_end [OF t(1) t(2) t3 t(4)] .
  have at_k: "snd (pipeline cfg c v (pre @ [(pk, fk)])) = handleSpeechStart (frames ?pre v)"
    using pipeline_to_start [OF t(1) t(2)] by simp
  have ne: "?post \<noteq> []" by simp
  note s = segment_after_start [OF assms(2) assms(3) assms(4) assms(5) ne, of ?pre]
  have len: "length ?pre = Suc (length pre)" by simp
  have veto: "revokeSpeechEnd (options ?x) \<noteq> Some True"
    using s(5) assms(6) by simp
  have e: "handleSpeechEnd ?x =
           ?x\<lparr>speeching := False,
              calls := calls ?x @ (if onSpeechEnd (options ?x) then [OnSpeechEnd] else []),
              aheadChunks := (aheadChunks ?x)\<lparr>queue := []\<rparr>\<rparr>"
    using handleSpeechEnd_forced [OF veto] .
  have a: "recordPCMPart (handleSpeechEnd ?x) = concat ?roll @ concat ?post"
    using s(1) unfolding len by (simp add: e)
  have b: "length ?roll = min (capacity (aheadChunks v)) (Suc (length pre))"
    by simp
  have c: "\<not> speeching (handleSpeechEnd ?x)" "queue (aheadChunks (handleSpeechEnd ?x)) = []"
    by (simp_all add: e)
  have d: "calls (handleSpeechEnd ?x)
           = calls v @ (if onSpeechStart (options v) then [OnSpeechStart] else [])
             @ (if onFrameProcess (options v)
                then OnFrameProcess (concat ?roll @ hd ?post) # map OnFrameProcess (tl ?post)
                else [])
             @ (if onSpeechEnd (options v) then [OnSpeechEnd] else [])"
    using s(6) s(5) unfolding len by (simp add: e)
  note k = state_at_start [OF assms(2) assms(3) assms(4) assms(5), of ?pre]
  have f: "speeching (handleSpeechStart (frames ?pre v))"
    "queue (aheadChunks (handleSpeechStart (frames ?pre v))) = ?roll"
    "recordPCMPart (handleSpeechStart (frames ?pre v)) = recordPCMPart v"
    using k unfolding len by simp_all
  show ?thesis
    unfolding fin at_k using a b c d f by simp
qed

text \<open>
  C3 (as amended). Let the classifier, run over the probabilities of the frames, report
  the start of speech at frame \<open>k\<close> and its end at frame \<open>j\<close>, and let the segmenter be
  idle with an empty pre-roll buffer of depth \<open>N > 0\<close> (4 in \<open>ChatVAD\<close>), neither
  transition being vetoed. The frame \<open>k\<close> itself reaches the segmenter while it is idle
  and goes into the pre-roll. So the sealed segment begins with the last \<open>min N (k + 1)\<close>
  frames up to and including frame \<open>k\<close>, in their order, and goes on with the frames
  \<open>k + 1\<close> to \<open>j\<close> as they came, the frame at which speech ends included. Right after
  frame \<open>k\<close> the pre-roll is still in the buffer and the segment untouched: the pre-roll
  is prepended, once, and the buffer emptied with frame \<open>k + 1\<close>. After frame \<open>j\<close> the
  segmenter is idle with an empty buffer, and the callbacks have received the start, the
  same samples frame by frame, and the end.
\<close>

theorem segment_from_crossing_frame:
  assumes "transitions cfg c 0 (map fst (pre @ (pk, fk) # mid @ (pj, fj) # rest))
             = [(length pre, SpeechStart), (length pre + 1 + length mid, SpeechEnd)]"
    and "\<not> speeching v" and "queue (aheadChunks v) = []"
    and "0 < capacity (aheadChunks v)"
    and "revokeSpeechStart (options v) \<noteq> Some True"
    and "revokeSpeechEnd (options v) \<noteq> Some True"
  shows "recordPCMPart (snd (pipeline cfg c v (pre @ (pk, fk) # mid @ [(pj, fj)])))
           = concat (drop (Suc (length pre) - capacity (aheadChunks v)) (map snd pre @ [fk]))
             @ concat (map snd mid @ [fj])
       \<and> length (drop (Suc (length pre) - capacity (aheadChunks v)) (map snd pre @ [fk]))
           = min (capacity (aheadChunks v)) (Suc (length pre))
       \<and> \<not> speeching (snd (pipeline cfg c v (pre @ (pk, fk) # mid @ [(pj, fj)])))
       \<and> queue (aheadChunks (snd (pipeline cfg c v (pre @ (pk, fk) # mid @ [(pj, fj)])))) = []
       \<and> calls (snd (pipeline cfg c v (pre @ (pk, fk) # mid @ [(pj, fj)])))
           = calls v @ (if onSpeechStart (options v) then [OnSpeechStart] else [])
             @ (if onFrameProcess (options v)
                then OnFrameProcess
                       (concat (drop (Suc (length pre) - capacity (aheadChunks v))
                                  (map snd pre @ [fk]))
                        @ hd (map snd mid @ [fj]))
                     # map OnFrameProcess (tl (map snd mid @ [fj]))
                else [])
             @ (if onSpeechEnd (options v) then [OnSpeechEnd] else [])
       \<and> speeching (snd (pipeline cfg c v (pre @ [(pk, fk)])))
       \<and> queue (aheadChunks (snd (pipeline cfg c v (pre @ [(pk, fk)]))))
           = drop (Suc (length pre) - capacity (aheadChunks v)) (map snd pre @ [fk])
       \<and> recordPCMPart (snd (pipeline cfg c v (pre @ [(pk, fk)]))) = recordPCMPart v"
  using sealed_segment [OF assms] .

lemmas vad_defs = ChatVAD_new_def FixedQueue_new_def onFrameProcessed_def handleSpeechStart_def
  handleSpeechEnd_def ChatVAD_pause_def ChatVAD_destroy_def call_def FixedQueue_append_def
  FixedQueue_length_def FixedQueue_clear_def getQueue_def concatFloat32Array_def vadConfig_def
  Let_def

lemmas number_defs = double_0_85_def double_0_25_def double_0_6_def double_1_def pow2_def

theorem segment_from_crossing_frame_witness:
  "transitions
     (vadConfig (ChatVAD_new \<lparr>opt_threshold = None, opt_vadFrame = None, onSpeechStart = True,
        revokeSpeechStart = None, onSpeechEnd = True, revokeSpeechEnd = None,
        onFrameProcess = True, onVADOpen = False\<rparr>))
     \<lparr>speaking = False, redemptionCounter = 0\<rparr> 0
     (map fst ([(0.1, [0]), (0.2, [1])] @ (0.9, [2]) # [(0.95, [3])] @ (0.3, [4])
        # [(0.1, [5]), (0.1, [6])]))
     = [(2, SpeechStart), (4, SpeechEnd)]
   \<and> recordPCMPart (snd (pipeline
       (vadConfig (ChatVAD_new \<lparr>opt_threshold = None, opt_vadFrame = None, onSpeechStart = True,
          revokeSpeechStart = None, onSpeechEnd = True, revokeSpeechEnd = None,
          onFrameProcess = True, onVADOpen = False\<rparr>))
       \<lparr>speaking = False, redemptionCounter = 0\<rparr>
       (ChatVAD_new \<lparr>opt_threshold = None, opt_vadFrame = None, onSpeechStart = True,
          revokeSpeechStart = None, onSpeechEnd = True, revokeSpeechEnd = None,
          onFrameProcess = True, onVADOpen = False\<rparr>)
       ([(0.1, [0]), (0.2, [1])] @ (0.9, [2]) # [(0.95, [3])] @ [(0.3, [4])])))
     = [0, 1, 2, 3, 4]
   \<and> calls (snd (pipeline
       (vadConfig (ChatVAD_new \<lparr>opt_threshold = None, opt_vadFrame = None, onSpeechStart = True,
          revokeSpeechStart = None, onSpeechEnd = True, revokeSpeechEnd = None,
          onFrameProcess = True, onVADOpen = False\<rparr>))
       \<lparr>speaking = False, redemptionCounter = 0\<rparr>
       (ChatVAD_new \<lparr>opt_threshold = None, opt_vadFrame = None, onSpeechStart = True,
          revokeSpeechStart = None, onSpeechEnd = True, revokeSpeechEnd = None,
          onFrameProcess = True, onVADOpen = False\<rparr>)
       ([(0.1, [0]), (0.2, [1])] @ (0.9, [2]) # [(0.95, [3])] @ [(0.3, [4])])))
     = [OnSpeechStart, OnFrameProcess [0, 1, 2, 3], OnFrameProcess [4], OnSpeechEnd]"
proof -
  let ?o = "\<lparr>opt_threshold = None, opt_vadFrame = None, onSpeechStart = True,
        revokeSpeechStart = None, onSpeechEnd = True, revokeSpeechEnd = None,
        onFrameProcess = True, onVADOpen = False\<rparr>"
  let ?v = "ChatVAD_new ?o"
  let ?cfg = "vadConfig ?v"
  let ?c = "\<lparr>speaking = False, redemptionCounter = 0\<rparr>"
  have cfg: "?cfg = \<lparr>redemptionFrames = double_1, positiveSpeechThreshold = double_0_85,
         negativeSpeechThreshold = double_0_6, preSpeechPadFrames = 4, listening = False\<rparr>"
    by (simp add: vadConfig_def ChatVAD_new_def default_end)
  have tr: "transitions ?cfg ?c 0
     (map fst ([(0.1, [0]), (0.2, [1])] @ (0.9, [2]) # [(0.95, [3])] @ (0.3, [4])
        # [(0.1, [5]), (0.1, [6])]))
     = [(length [(0.1 :: real, [0 :: real]), (0.2, [1])], SpeechStart),
        (length [(0.1 :: real, [0 :: real]), (0.2, [1])] + 1 + length [(0.95 :: real, [3 :: real])],
         SpeechEnd)]"
    unfolding cfg by (simp add: classify_def Let_def number_defs)
  have a: "\<not> speeching ?v" and b: "queue (aheadChunks ?v) = []"
    and c: "0 < capacity (aheadChunks ?v)"
    and d: "revokeSpeechStart (options ?v) \<noteq> Some True"
    and e: "revokeSpeechEnd (options ?v) \<noteq> Some True"
    and f: "capacity (aheadChunks ?v) = 4" "calls ?v = []"
      "onSpeechStart (options ?v)" "onFrameProcess (options ?v)" "onSpeechEnd (options ?v)"
    by (simp_all add: ChatVAD_new_def FixedQueue_new_def)
  from segment_from_crossing_frame [OF tr a b c d e] f tr
  show ?thesis
    by simp
qed

text \<open>
  C3, the counterexample. Depth 4, speech starting at frame 6 and ending at frame 8,
  frame \<open>i\<close> holding the one sample \<open>i\<close>: the sealed segment is the frames 3 to 8. It
  does not begin with the four frames 2 to 5 that precede frame 6. Right after frame 6
  the pre-roll is still in the buffer, frame 6 in it, and not yet in the segment.
\<close>

theorem segment_holds_crossing_frame_in_preroll:
  "transitions
     (vadConfig (ChatVAD_new \<lparr>opt_threshold = None, opt_vadFrame = None, onSpeechStart = True,
        revokeSpeechStart = None, onSpeechEnd = True, revokeSpeechEnd = None,
        onFrameProcess = True, onVADOpen = False\<rparr>))
     \<lparr>speaking = False, redemptionCounter = 0\<rparr> 0
     [0.1, 0.2, 0.1, 0.1, 0.2, 0.1, 0.9, 0.95, 0.3]
     = [(6, SpeechStart), (8, SpeechEnd)]
   \<and> recordPCMPart (snd (pipeline
       (vadConfig (ChatVAD_new \<lparr>opt_threshold = None, opt_vadFrame = None, onSpeechStart = True,
          revokeSpeechStart = None, onSpeechEnd = True, revokeSpeechEnd = None,
          onFrameProcess = True, onVADOpen = False\<rparr>))
       \<lparr>speaking = False, redemptionCounter = 0\<rparr>
       (ChatVAD_new \<lparr>opt_threshold = None, opt_vadFrame = None, onSpeechStart = True,
          revokeSpeechStart = None, onSpeechEnd = True, revokeSpeechEnd = None,
          onFrameProcess = True, onVADOpen = False\<rparr>)
       [(0.1, [0]), (0.2, [1]), (0.1, [2]), (0.1, [3]), (0.2, [4]), (0.1, [5]), (0.9, [6]),
        (0.95, [7]), (0.3, [8])]))
     = [3, 4, 5, 6, 7, 8]
   \<and> recordPCMPart (snd (pipeline
       (vadConfig (ChatVAD_new \<lparr>opt_threshold = None, opt_vadFrame = None, onSpeechStart = True,
          revokeSpeechStart = None, onSpeechEnd = True, revokeSpeechEnd = None,
          onFrameProcess = True, onVADOpen = False\<rparr>))
       \<lparr>speaking = False, redemptionCounter = 0\<rparr>
       (ChatVAD_new \<lparr>opt_threshold = None, opt_vadFrame = None, onSpeechStart = True,
          revokeSpeechStart = None, onSpeechEnd = True, revokeSpeechEnd = None,
          onFrameProcess = True, onVADOpen = False\<rparr>)
       [(0.1, [0]), (0.2, [1]), (0.1, [2]), (0.1, [3]), (0.2, [4]), (0.1, [5]), (0.9, [6]),
        (0.95, [7]), (0.3, [8])]))
     \<noteq> concat [[2], [3], [4], [5]] @ concat [[6], [7], [8]]
   \<and> queue (aheadChunks (snd (pipeline
       (vadConfig (ChatVAD_new \<lparr>opt_threshold = None, opt_vadFrame = None, onSpeechStart = True,
          revokeSpeechStart = None, onSpeechEnd = True, revokeSpeechEnd = None,
          onFrameProcess = True, onVADOpen = False\<rparr>))
       \<lparr>speaking = False, redemptionCounter = 0\<rparr>
       (ChatVAD_new \<lparr>opt_threshold = None, opt_vadFrame = None, onSpeechStart = True,
          revokeSpeechStart = None, onSpeechEnd = True, revokeSpeechEnd = None,
          onFrameProcess = True, onVADOpen = False\<rparr>)
       [(0.1, [0]), (0.2, [1]), (0.1, [2]), (0.1, [3]), (0.2, [4]), (0.1, [5]), (0.9, [6])])))
     = [[3], [4], [5], [6]]
   \<and> recordPCMPart (snd (pipeline
       (vadConfig (ChatVAD_new \<lparr>opt_threshold = None, opt_vadFrame = None, onSpeechStart = True,
          revokeSpeechStart = None, onSpeechEnd = True, revokeSpeechEnd = None,
          onFrameProcess = True, onVADOpen = False\<rparr>))
       \<lparr>speaking = False, redemptionCounter = 0\<rparr>
       (ChatVAD_new \<lparr>opt_threshold = None, opt_vadFrame = None, onSpeechStart = True,
          revokeSpeechStart = None, onSpeechEnd = True, revokeSpeechEnd = None,
          onFrameProcess = True, onVADOpen = False\<rparr>)
       [(0.1, [0]), (0.2, [1]), (0.1, [2]), (0.1, [3]), (0.2, [4]), (0.1, [5]), (0.9, [6])]))
     = []"
proof -
  let ?o = "\<lparr>opt_threshold = None, opt_vadFrame = None, onSpeechStart = True,
        revokeSpeechStart = None, onSpeechEnd = True, revokeSpeechEnd = None,
        onFrameProcess = True, onVADOpen = False\<rparr>"
  let ?v = "ChatVAD_new ?o"
  let ?cfg = "vadConfig ?v"
  let ?c = "\<lparr>speaking = False, redemptionCounter = 0\<rparr>"
  let ?pre = "[(0.1 :: real, [0 :: real]), (0.2, [1]), (0.1, [2]), (0.1, [3]), (0.2, [4]),
               (0.1, [5])]"
  have cfg: "?cfg = \<lparr>redemptionFrames = double_1, positiveSpeechThreshold = double_0_85,
         negativeSpeechThreshold = double_0_6, preSpeechPadFrames = 4, listening = False\<rparr>"
    by (simp add: vadConfig_def ChatVAD_new_def default_end)
  have tr0: "transitions ?cfg ?c 0 [0.1, 0.2, 0.1, 0.1, 0.2, 0.1, 0.9, 0.95, 0.3]
      = [(6, SpeechStart), (8, SpeechEnd)]"
    unfolding cfg by (simp add: classify_def Let_def number_defs)
  have tr: "transitions ?cfg ?c 0
      (map fst (?pre @ (0.9, [6]) # [(0.95, [7])] @ (0.3, [8]) # []))
      = [(length ?pre, SpeechStart), (length ?pre + 1 + length [(0.95 :: real, [7 :: real])],
          SpeechEnd)]"
    using tr0 by simp
  have a: "\<not> speeching ?v" and b: "queue (aheadChunks ?v) = []"
    and c: "0 < capacity (aheadChunks ?v)"
    and d: "revokeSpeechStart (options ?v) \<noteq> Some True"
    and e: "revokeSpeechEnd (options ?v) \<noteq> Some True"
    and f: "capacity (aheadChunks ?v) = 4" "recordPCMPart ?v = []"
    by (simp_all add: ChatVAD_new_def FixedQueue_new_def)
  from sealed_segment [OF tr a b c d e] f tr0
  show ?thesis
    by simp
qed

text \<open>
  C5 (as amended). The classifier gets the segmenter's threshold as the threshold that
  starts speech, and that threshold less 0.25, subtracted as doubles, as the threshold
  that ends it. For a start threshold from 0.125 to 1 the subtraction is exact: the end
  threshold is lower by 0.25. The segmenter's threshold is the configured one unless that
  is missing, zero or not-a-number, when it is 0.85; so the default gives 0.85 and 0.6.
  With these two thresholds and the default \<open>vadFrame\<close>, the probabilities
  0.1, 0.2, 0.9, 0.95, 0.3, 0.1, 0.1 start speech at index 2 and end it at index 4.
\<close>

theorem end_threshold_quarter_below_start:
  "positiveSpeechThreshold (vadConfig v) = threshold v
   \<and> negativeSpeechThreshold (vadConfig v) = fsub (threshold v) double_0_25
   \<and> (threshold v = Dyadic m e \<and> \<bar>m\<bar> < 2 ^ 53
        \<and> 1 / 8 \<le> real_of_int m * pow2 e \<and> real_of_int m * pow2 e \<le> 1 \<longrightarrow>
        (\<exists>n f. negativeSpeechThreshold (vadConfig v) = Dyadic n f
           \<and> real_of_int n * pow2 f = real_of_int m * pow2 e - 1 / 4)
        \<and> lower (negativeSpeechThreshold (vadConfig v)) (positiveSpeechThreshold (vadConfig v)))
   \<and> (opt_threshold opts = Some t \<and> \<not> falsy t \<longrightarrow> threshold (ChatVAD_new opts) = t)
   \<and> (opt_threshold opts = None \<or> opt_threshold opts = Some double_0_85
        \<or> (opt_threshold opts = Some t \<and> falsy t) \<longrightarrow>
        positiveSpeechThreshold (vadConfig (ChatVAD_new opts)) = double_0_85
        \<and> negativeSpeechThreshold (vadConfig (ChatVAD_new opts)) = double_0_6)
   \<and> ((opt_threshold opts = None \<or> opt_threshold opts = Some double_0_85
         \<or> (opt_threshold opts = Some t \<and> falsy t))
        \<and> (opt_vadFrame opts = None \<or> opt_vadFrame opts = Some double_1) \<longrightarrow>
        transitions (vadConfig (ChatVAD_new opts)) \<lparr>speaking = False, redemptionCounter = 0\<rparr> 0
          [0.1, 0.2, 0.9, 0.95, 0.3, 0.1, 0.1]
        = [(2, SpeechStart), (4, SpeechEnd)])
   \<and> double_0_85 = Dyadic 7656119366529843 (- 53)
   \<and> \<bar>7656119366529843 * pow2 (- 53) - 0.85\<bar> < pow2 (- 54)
   \<and> double_0_6 = Dyadic 5404319552844595 (- 53)
   \<and> \<bar>5404319552844595 * pow2 (- 53) - 0.6\<bar> < pow2 (- 54)
   \<and> double_0_25 = Dyadic 1 (- 2) \<and> 1 * pow2 (- 2) = 0.25"
proof -
  have a: "positiveSpeechThreshold (vadConfig v) = threshold v
     \<and> negativeSpeechThreshold (vadConfig v) = fsub (threshold v) double_0_25"
    by (simp add: vadConfig_def)
  have b: "threshold v = Dyadic m e \<and> \<bar>m\<bar> < 2 ^ 53
        \<and> 1 / 8 \<le> real_of_int m * pow2 e \<and> real_of_int m * pow2 e \<le> 1 \<longrightarrow>
        (\<exists>n f. negativeSpeechThreshold (vadConfig v) = Dyadic n f
           \<and> real_of_int n * pow2 f = real_of_int m * pow2 e - 1 / 4)
        \<and> lower (negativeSpeechThreshold (vadConfig v)) (positiveSpeechThreshold (vadConfig v))"
  proof (intro impI)
    assume h: "threshold v = Dyadic m e \<and> \<bar>m\<bar> < 2 ^ 53
        \<and> 1 / 8 \<le> real_of_int m * pow2 e \<and> real_of_int m * pow2 e \<le> 1"
    then obtain n f where nf: "fsub (Dyadic m e) double_0_25 = Dyadic n f"
      "real_of_int n * pow2 f = real_of_int m * pow2 e - 1 / 4"
      using fsub_quarter_exact [of m e] by blast
    have neg: "negativeSpeechThreshold (vadConfig v) = Dyadic n f"
      and pos: "positiveSpeechThreshold (vadConfig v) = Dyadic m e"
      using h nf by (simp_all add: vadConfig_def)
    have "lower (Dyadic n f) (Dyadic m e)"
      using nf(2) by simp
    then show "(\<exists>n f. negativeSpeechThreshold (vadConfig v) = Dyadic n f
           \<and> real_of_int n * pow2 f = real_of_int m * pow2 e - 1 / 4)
        \<and> lower (negativeSpeechThreshold (vadConfig v)) (positiveSpeechThreshold (vadConfig v))"
      using neg pos nf(2) by simp
  qed
  have c: "opt_threshold opts = Some t \<and> \<not> falsy t \<longrightarrow> threshold (ChatVAD_new opts) = t"
    by (simp add: ChatVAD_new_def)
  have d: "opt_threshold opts = None \<or> opt_threshold opts = Some double_0_85
        \<or> (opt_threshold opts = Some t \<and> falsy t) \<longrightarrow>
        positiveSpeechThreshold (vadConfig (ChatVAD_new opts)) = double_0_85
        \<and> negativeSpeechThreshold (vadConfig (ChatVAD_new opts)) = double_0_6"
    by (auto simp: vadConfig_def ChatVAD_new_def default_end)
  have e: "(opt_threshold opts = None \<or> opt_threshold opts = Some double_0_85
         \<or> (opt_threshold opts = Some t \<and> falsy t))
        \<and> (opt_vadFrame opts = None \<or> opt_vadFrame opts = Some double_1) \<longrightarrow>
        transitions (vadConfig (ChatVAD_new opts)) \<lparr>speaking = False, redemptionCounter = 0\<rparr> 0
          [0.1, 0.2, 0.9, 0.95, 0.3, 0.1, 0.1]
        = [(2, SpeechStart), (4, SpeechEnd)]"
  proof (intro impI)
    assume h: "(opt_threshold opts = None \<or> opt_threshold opts = Some double_0_85
         \<or> (opt_threshold opts = Some t \<and> falsy t))
        \<and> (opt_vadFrame opts = None \<or> opt_vadFrame opts = Some double_1)"
    have f1: "\<not> falsy double_1"
      by (simp add: double_1_def)
    from h have cfg: "vadConfig (ChatVAD_new opts) =
        \<lparr>redemptionFrames = double_1, positiveSpeechThreshold = double_0_85,
         negativeSpeechThreshold = double_0_6, preSpeechPadFrames = 4, listening = False\<rparr>"
      using f1 by (auto simp: vadConfig_def ChatVAD_new_def default_end)
    show "transitions (vadConfig (ChatVAD_new opts)) \<lparr>speaking = False, redemptionCounter = 0\<rparr> 0
          [0.1, 0.2, 0.9, 0.95, 0.3, 0.1, 0.1] = [(2, SpeechStart), (4, SpeechEnd)]"
      unfolding cfg by (simp add: classify_def Let_def number_defs)
  qed
  have f: "double_0_85 = Dyadic 7656119366529843 (- 53)
     \<and> \<bar>7656119366529843 * pow2 (- 53) - 0.85\<bar> < pow2 (- 54)
     \<and> double_0_6 = Dyadic 5404319552844595 (- 53)
     \<and> \<bar>5404319552844595 * pow2 (- 53) - 0.6\<bar> < pow2 (- 54)
     \<and> double_0_25 = Dyadic 1 (- 2) \<and> 1 * pow2 (- 2) = 0.25"
    by (simp add: number_defs)
  from a b c d e f show ?thesis
    by (intro conjI) (elim conjE, assumption)+
qed


theorem end_threshold_quarter_below_start_witness:
  "threshold (ChatVAD_new \<lparr>opt_threshold = Some (Dyadic 6305039478318694 (- 53)),
         opt_vadFrame = None, onSpeechStart = True,
         revokeSpeechStart = None, onSpeechEnd = True, revokeSpeechEnd = None,
         onFrameProcess = True, onVADOpen = False\<rparr>) = Dyadic 6305039478318694 (- 53)
   \<and> lower
        (negativeSpeechThreshold (vadConfig (ChatVAD_new
           \<lparr>opt_threshold = Some (Dyadic 6305039478318694 (- 53)),
            opt_vadFrame = None, onSpeechStart = True,
            revokeSpeechStart = None, onSpeechEnd = True, revokeSpeechEnd = None,
            onFrameProcess = True, onVADOpen = False\<rparr>)))
        (positiveSpeechThreshold (vadConfig (ChatVAD_new
           \<lparr>opt_threshold = Some (Dyadic 6305039478318694 (- 53)),
            opt_vadFrame = None, onSpeechStart = True,
            revokeSpeechStart = None, onSpeechEnd = True, revokeSpeechEnd = None,
            onFrameProcess = True, onVADOpen = False\<rparr>)))
   \<and> negativeSpeechThreshold (vadConfig (ChatVAD_new \<lparr>opt_threshold = None,
         opt_vadFrame = None, onSpeechStart = True,
         revokeSpeechStart = None, onSpeechEnd = True, revokeSpeechEnd = None,
         onFrameProcess = True, onVADOpen = False\<rparr>)) = double_0_6
   \<and> transitions (vadConfig (ChatVAD_new \<lparr>opt_threshold = None,
         opt_vadFrame = None, onSpeechStart = True,
         revokeSpeechStart = None, onSpeechEnd = True, revokeSpeechEnd = None,
         onFrameProcess = True, onVADOpen = False\<rparr>)) \<lparr>speaking = False, redemptionCounter = 0\<rparr> 0
          [0.1, 0.2, 0.9, 0.95, 0.3, 0.1, 0.1]
        = [(2, SpeechStart), (4, SpeechEnd)]"
proof -
  let ?t = "Dyadic 6305039478318694 (- 53)"
  let ?o = "\<lparr>opt_threshold = Some ?t, opt_vadFrame = None, onSpeechStart = True,
         revokeSpeechStart = None, onSpeechEnd = True, revokeSpeechEnd = None,
         onFrameProcess = True, onVADOpen = False\<rparr>"
  let ?d = "\<lparr>opt_threshold = None, opt_vadFrame = None, onSpeechStart = True,
         revokeSpeechStart = None, onSpeechEnd = True, revokeSpeechEnd = None,
         onFrameProcess = True, onVADOpen = False\<rparr>"
  have a: "opt_threshold ?o = Some ?t" and b: "\<not> falsy ?t"
    and c: "\<bar>6305039478318694 :: int\<bar> < 2 ^ 53"
    and d: "1 / 8 \<le> real_of_int 6305039478318694 * pow2 (- 53)"
    and e: "real_of_int 6305039478318694 * pow2 (- 53) \<le> 1"
    and f: "opt_threshold ?d = None" and g: "opt_vadFrame ?d = None"
    by (simp_all add: pow2_def)
  note T = end_threshold_quarter_below_start [of "ChatVAD_new ?o" 6305039478318694 "- 53" ?o ?t]
  note D = end_threshold_quarter_below_start [of "ChatVAD_new ?d" 0 0 ?d NotANumber]
  have th: "threshold (ChatVAD_new ?o) = ?t"
    using T [THEN conjunct2, THEN conjunct2, THEN conjunct2, THEN conjunct1] a b by blast
  have l: "lower (negativeSpeechThreshold (vadConfig (ChatVAD_new ?o)))
                 (positiveSpeechThreshold (vadConfig (ChatVAD_new ?o)))"
    using T [THEN conjunct2, THEN conjunct2, THEN conjunct1] th c d e by blast
  have n6: "negativeSpeechThreshold (vadConfig (ChatVAD_new ?d)) = double_0_6"
    using D [THEN conjunct2, THEN conjunct2, THEN conjunct2, THEN conjunct2, THEN conjunct1] f
    by blast
  have tr: "transitions (vadConfig (ChatVAD_new ?d)) \<lparr>speaking = False, redemptionCounter = 0\<rparr> 0
              [0.1, 0.2, 0.9, 0.95, 0.3, 0.1, 0.1] = [(2, SpeechStart), (4, SpeechEnd)]"
    using D [THEN conjunct2, THEN conjunct2, THEN conjunct2, THEN conjunct2, THEN conjunct2,
             THEN conjunct1] f g
    by blast
  show ?thesis
    by (intro conjI th l n6 tr)
qed

text \<open>
  C5, the counterexample. With a configured start threshold of 0 the classifier gets
  0.85 and 0.6: the end threshold is not lower than the configured 0. With a configured
  start threshold of \<open>10 ^ 17\<close> the subtraction of 0.25 rounds back to \<open>10 ^ 17\<close>: the end
  threshold is not lower than the start threshold.
\<close>

theorem end_threshold_not_below_start:
  "negativeSpeechThreshold (vadConfig (ChatVAD_new \<lparr>opt_threshold = Some (Dyadic 0 0),
         opt_vadFrame = None, onSpeechStart = True,
         revokeSpeechStart = None, onSpeechEnd = True, revokeSpeechEnd = None,
         onFrameProcess = True, onVADOpen = False\<rparr>)) = double_0_6
   \<and> \<not> lower
        (negativeSpeechThreshold (vadConfig (ChatVAD_new \<lparr>opt_threshold = Some (Dyadic 0 0),
           opt_vadFrame = None, onSpeechStart = True,
           revokeSpeechStart = None, onSpeechEnd = True, revokeSpeechEnd = None,
           onFrameProcess = True, onVADOpen = False\<rparr>)))
        (Dyadic 0 0)
   \<and> positiveSpeechThreshold (vadConfig (ChatVAD_new
         \<lparr>opt_threshold = Some (Dyadic 762939453125 17),
          opt_vadFrame = None, onSpeechStart = True,
          revokeSpeechStart = None, onSpeechEnd = True, revokeSpeechEnd = None,
          onFrameProcess = True, onVADOpen = False\<rparr>)) = Dyadic 762939453125 17
   \<and> real_of_int 762939453125 * pow2 17 = 10 ^ 17
   \<and> \<not> lower
        (negativeSpeechThreshold (vadConfig (ChatVAD_new
           \<lparr>opt_threshold = Some (Dyadic 762939453125 17),
            opt_vadFrame = None, onSpeechStart = True,
            revokeSpeechStart = None, onSpeechEnd = True, revokeSpeechEnd = None,
            onFrameProcess = True, onVADOpen = False\<rparr>)))
        (positiveSpeechThreshold (vadConfig (ChatVAD_new
           \<lparr>opt_threshold = Some (Dyadic 762939453125 17),
            opt_vadFrame = None, onSpeechStart = True,
            revokeSpeechStart = None, onSpeechEnd = True, revokeSpeechEnd = None,
            onFrameProcess = True, onVADOpen = False\<rparr>)))"
proof -
  have big: "fsub (Dyadic 762939453125 17) double_0_25 = Dyadic 6250000000000000 4"
    by (simp add: double_0_25_def round53_def Let_def excess.simps)
  have zero: "\<not> lower double_0_6 (Dyadic 0 0)"
    by (simp add: double_0_6_def pow2_def)
  have same: "\<not> lower (Dyadic 6250000000000000 4) (Dyadic 762939453125 17)"
    by (simp add: pow2_def)
  have val: "real_of_int 762939453125 * pow2 17 = 10 ^ 17"
    by (simp add: pow2_def)
  show ?thesis
    using zero same val
    by (simp add: vadConfig_def ChatVAD_new_def default_end big)
qed

text \<open>
  C7 (as amended). When an initialised segmenter is paused or destroyed while speaking
  and the hook \<open>revokeSpeechEnd\<close> is missing or answers false, the end of the utterance is
  forced: the speaking flag becomes false, the callback \<open>onSpeechEnd\<close> runs if there is
  one, and the pre-roll buffer is emptied.
\<close>

theorem pause_forces_speech_end:
  assumes "vadInstance v = Some inst" and "speeching v"
    and "revokeSpeechEnd (options v) \<noteq> Some True"
  shows "\<not> speeching (ChatVAD_pause v)
       \<and> queue (aheadChunks (ChatVAD_pause v)) = []
       \<and> calls (ChatVAD_pause v)
           = calls v @ (if onVADOpen (options v) then [OnVADOpen False] else [])
               @ (if onSpeechEnd (options v) then [OnSpeechEnd] else [])
       \<and> \<not> speeching (ChatVAD_destroy v)
       \<and> queue (aheadChunks (ChatVAD_destroy v)) = []
       \<and> calls (ChatVAD_destroy v) = calls (ChatVAD_pause v)
       \<and> vadInstance (ChatVAD_destroy v) = None"
  using assms
  by (simp add: ChatVAD_pause_def ChatVAD_destroy_def handleSpeechEnd_def call_def Let_def
        FixedQueue_clear_def)

theorem pause_forces_speech_end_witness:
  "\<not> speeching (ChatVAD_pause (handleSpeechStart (frames [[1], [2]]
      ((ChatVAD_new \<lparr>opt_threshold = None, opt_vadFrame = None, onSpeechStart = True,
         revokeSpeechStart = None, onSpeechEnd = True, revokeSpeechEnd = Some False,
         onFrameProcess = True, onVADOpen = False\<rparr>)
       \<lparr>vadInstance := Some (vadConfig (ChatVAD_new \<lparr>opt_threshold = None,
         opt_vadFrame = None, onSpeechStart = True,
         revokeSpeechStart = None, onSpeechEnd = True, revokeSpeechEnd = Some False,
         onFrameProcess = True, onVADOpen = False\<rparr>))\<rparr>))))
   \<and> calls (ChatVAD_pause (handleSpeechStart (frames [[1], [2]]
      ((ChatVAD_new \<lparr>opt_threshold = None, opt_vadFrame = None, onSpeechStart = True,
         revokeSpeechStart = None, onSpeechEnd = True, revokeSpeechEnd = Some False,
         onFrameProcess = True, onVADOpen = False\<rparr>)
       \<lparr>vadInstance := Some (vadConfig (ChatVAD_new \<lparr>opt_threshold = None,
         opt_vadFrame = None, onSpeechStart = True,
         revokeSpeechStart = None, onSpeechEnd = True, revokeSpeechEnd = Some False,
         onFrameProcess = True, onVADOpen = False\<rparr>))\<rparr>))))
     = [OnSpeechStart, OnSpeechEnd]"
proof -
  let ?o = "\<lparr>opt_threshold = None, opt_vadFrame = None, onSpeechStart = True,
         revokeSpeechStart = None, onSpeechEnd = True, revokeSpeechEnd = Some False,
         onFrameProcess = True, onVADOpen = False\<rparr>"
  let ?v = "handleSpeechStart (frames [[1], [2]]
      ((ChatVAD_new ?o)\<lparr>vadInstance := Some (vadConfig (ChatVAD_new ?o))\<rparr>))"
  have a: "vadInstance ?v = Some (vadConfig (ChatVAD_new ?o))" and b: "speeching ?v"
    and c: "revokeSpeechEnd (options ?v) \<noteq> Some True"
    and d: "calls ?v = [OnSpeechStart]" and e: "onSpeechEnd (options ?v)"
    and f: "\<not> onVADOpen (options ?v)"
    by (simp_all add: vad_defs)
  from pause_forces_speech_end [OF a b c] d e f show ?thesis
    by simp
qed

text \<open>
  C7, the counterexample. With a hook \<open>revokeSpeechEnd\<close> that answers true, pausing a
  segmenter that has just started to speak leaves it speaking, the callback not run and
  the two frames of pre-roll in the buffer.
\<close>

theorem pause_vetoed_leaves_segment_open:
  "speeching (ChatVAD_pause (handleSpeechStart (frames [[1], [2]]
      ((ChatVAD_new \<lparr>opt_threshold = None, opt_vadFrame = None, onSpeechStart = True,
         revokeSpeechStart = None, onSpeechEnd = True, revokeSpeechEnd = Some True,
         onFrameProcess = True, onVADOpen = False\<rparr>)
       \<lparr>vadInstance := Some (vadConfig (ChatVAD_new \<lparr>opt_threshold = None,
         opt_vadFrame = None, onSpeechStart = True,
         revokeSpeechStart = None, onSpeechEnd = True, revokeSpeechEnd = Some True,
         onFrameProcess = True, onVADOpen = False\<rparr>))\<rparr>))))
   \<and> calls (ChatVAD_pause (handleSpeechStart (frames [[1], [2]]
      ((ChatVAD_new \<lparr>opt_threshold = None, opt_vadFrame = None, onSpeechStart = True,
         revokeSpeechStart = None, onSpeechEnd = True, revokeSpeechEnd = Some True,
         onFrameProcess = True, onVADOpen = False\<rparr>)
       \<lparr>vadInstance := Some (vadConfig (ChatVAD_new \<lparr>opt_threshold = None,
         opt_vadFrame = None, onSpeechStart = True,
         revokeSpeechStart = None, onSpeechEnd = True, revokeSpeechEnd = Some True,
         onFrameProcess = True, onVADOpen = False\<rparr>))\<rparr>))))
     = [OnSpeechStart]
   \<and> queue (aheadChunks (ChatVAD_pause (handleSpeechStart (frames [[1], [2]]
      ((ChatVAD_new \<lparr>opt_threshold = None, opt_vadFrame = None, onSpeechStart = True,
         revokeSpeechStart = None, onSpeechEnd = True, revokeSpeechEnd = Some True,
         onFrameProcess = True, onVADOpen = False\<rparr>)
       \<lparr>vadInstance := Some (vadConfig (ChatVAD_new \<lparr>opt_threshold = None,
         opt_vadFrame = None, onSpeechStart = True,
         revokeSpeechStart = None, onSpeechEnd = True, revokeSpeechEnd = Some True,
         onFrameProcess = True, onVADOpen = False\<rparr>))\<rparr>)))))
     = [[1], [2]]"
  by (simp add: vad_defs)

section \<open>Properties of the playback backend\<close>

lemma append_chunk_idle:
  assumes "ttsSourceBuffer p = Some sb" and "\<not> updating sb"
  shows "append_chunk data p =
           Inr (p\<lparr>ttsSourceBuffer := Some (sb\<lparr>listener := True, updating := True,
                                              inflight := inflight sb @ [data]\<rparr>),
                  bufferUpdating := True, sourceBufferResolver := True\<rparr>)"
  using assms by (simp add: append_chunk_def appendBuffer_def)

lemma adaptBuffer_single_writer:
  assumes "single_writer p"
  shows "\<exists>p'. adaptBuffer data p = Inr p' \<and> single_writer p' \<and> held p' = held p @ [data]"
proof -
  from assms obtain sb where sb: "ttsSourceBuffer p = Some sb"
    by (auto simp: single_writer_def split: option.splits)
  show ?thesis
  proof (cases "updating sb")
    case True
    then have "checkBufferUpdating p"
      using assms sb by (simp add: checkBufferUpdating_def)
    then have "adaptBuffer data p = Inr (p\<lparr>bufferQueue := bufferQueue p @ [data]\<rparr>)"
      by (simp add: adaptBuffer_def)
    then show ?thesis
      using assms sb True by (simp add: single_writer_def held_def)
  next
    case False
    then have idle: "\<not> checkBufferUpdating p" "inflight sb = []" "bufferQueue p = []"
      using assms sb by (simp_all add: checkBufferUpdating_def single_writer_def)
    then have "adaptBuffer data p = append_chunk data p"
      by (simp add: adaptBuffer_def)
    then show ?thesis
      using assms sb False idle append_chunk_idle [OF sb False, of data]
      by (simp add: single_writer_def held_def)
  qed
qed

lemma handler_flags:
  assumes "ttsMediaSource p = Some ms"
  shows "\<exists>q. (case bufferQueue p of
                [] \<Rightarrow> sourceBufferOnUpdateEnd p = Inr q
              | data # rest \<Rightarrow> sourceBufferOnUpdateEnd p = append_chunk data (q\<lparr>bufferQueue := rest\<rparr>))
            \<and> ttsSourceBuffer q = ttsSourceBuffer p \<and> ttsMediaSource q = ttsMediaSource p
            \<and> bufferQueue q = bufferQueue p \<and> \<not> bufferUpdating q"
  using assms
  by (cases "bufferQueue p") (auto simp: sourceBufferOnUpdateEnd_def Let_def)

lemma updateend_single_writer:
  assumes "single_writer p" and sb: "ttsSourceBuffer p = Some sb"
  shows "\<exists>p' sb'. updateend d p = Inr p' \<and> single_writer p' \<and> held p' = held p
            \<and> ttsSourceBuffer p' = Some sb'
            \<and> (if updating sb
                then acknowledged sb' = acknowledged sb @ inflight sb
                     \<and> inflight sb' = take 1 (bufferQueue p)
                     \<and> bufferQueue p' = drop 1 (bufferQueue p)
                else p' = p)"
proof -
  from assms obtain ms where ms: "ttsMediaSource p = Some ms"
    by (auto simp: single_writer_def split: option.splits)
  show ?thesis
  proof (cases "updating sb")
    case False
    then show ?thesis using assms sb by (simp add: updateend_def)
  next
    case True
    define sb' where "sb' = sb\<lparr>updating := False, inflight := [],
                        acknowledged := acknowledged sb @ inflight sb, listener := False\<rparr>"
    define p1 where "p1 = p\<lparr>ttsSourceBuffer := Some sb',
                             ttsMediaSource := Some (ms\<lparr>duration := d\<rparr>)\<rparr>"
    have lis: "listener sb" using assms sb True by (simp add: single_writer_def)
    have ue: "updateend d p = sourceBufferOnUpdateEnd p1"
      using sb ms True lis by (simp add: updateend_def Let_def sb'_def p1_def)
    have p1ms: "ttsMediaSource p1 = Some (ms\<lparr>duration := d\<rparr>)"
      by (simp add: p1_def)
    from handler_flags [OF p1ms] obtain q where
      q: "case bufferQueue p1 of
            [] \<Rightarrow> sourceBufferOnUpdateEnd p1 = Inr q
          | data # rest \<Rightarrow> sourceBufferOnUpdateEnd p1 = append_chunk data (q\<lparr>bufferQueue := rest\<rparr>)"
      and qf: "ttsSourceBuffer q = ttsSourceBuffer p1" "ttsMediaSource q = ttsMediaSource p1"
        "bufferQueue q = bufferQueue p1" "\<not> bufferUpdating q"
      by blast
    have qsb: "ttsSourceBuffer q = Some sb'" and qq: "bufferQueue q = bufferQueue p"
      using qf by (simp_all add: p1_def)
    show ?thesis
    proof (cases "bufferQueue p")
      case Nil
      then have "sourceBufferOnUpdateEnd p1 = Inr q"
        using q by (simp add: p1_def)
      moreover have "single_writer q"
        using qf qsb qq Nil by (simp add: single_writer_def sb'_def p1_def)
      moreover have "held q = held p"
        using qsb qq sb by (simp add: held_def sb'_def)
      moreover have "acknowledged sb' = acknowledged sb @ inflight sb" "inflight sb' = []"
        by (simp_all add: sb'_def)
      ultimately show ?thesis using ue True qsb qq Nil by simp
    next
      case (Cons data rest)
      let ?q = "q\<lparr>bufferQueue := rest\<rparr>"
      have run: "sourceBufferOnUpdateEnd p1 = append_chunk data ?q"
        using q Cons by (simp add: p1_def)
      have "ttsSourceBuffer ?q = Some sb'" and "\<not> updating sb'"
        using qsb by (simp_all add: sb'_def)
      from append_chunk_idle [OF this, of data]
      have ap: "append_chunk data ?q =
          Inr (?q\<lparr>ttsSourceBuffer := Some (sb'\<lparr>listener := True, updating := True,
                                               inflight := inflight sb' @ [data]\<rparr>),
                   bufferUpdating := True, sourceBufferResolver := True\<rparr>)" .
      have "single_writer (?q\<lparr>ttsSourceBuffer := Some (sb'\<lparr>listener := True, updating := True,
                                               inflight := inflight sb' @ [data]\<rparr>),
                   bufferUpdating := True, sourceBufferResolver := True\<rparr>)"
        using qf by (simp add: single_writer_def sb'_def p1_def)
      moreover have "held (?q\<lparr>ttsSourceBuffer := Some (sb'\<lparr>listener := True, updating := True,
                                               inflight := inflight sb' @ [data]\<rparr>),
                   bufferUpdating := True, sourceBufferResolver := True\<rparr>) = held p"
        using sb Cons by (simp add: held_def sb'_def)
      moreover have "acknowledged sb' = acknowledged sb @ inflight sb" "inflight sb' = []"
        by (simp_all add: sb'_def)
      ultimately show ?thesis using ue run ap True Cons by simp
    qed
  qed
qed

lemma step_single_writer:
  assumes "single_writer p" and "e \<noteq> Reset"
  shows "\<exists>p'. step e p = Inr p' \<and> single_writer p'
            \<and> held p' = held p @ submitted [e]"
proof (cases e)
  case (Submit data)
  then show ?thesis using adaptBuffer_single_writer [OF assms(1), of data] by simp
next
  case (UpdateEnd d)
  from assms(1) obtain sb where "ttsSourceBuffer p = Some sb"
    by (auto simp: single_writer_def split: option.splits)
  from updateend_single_writer [OF assms(1) this, of d] UpdateEnd show ?thesis
    by auto
next
  case AudioPlay
  then show ?thesis using assms(1)
    by (auto simp: onPlayTTS_def single_writer_def held_def Let_def split: option.splits)
next
  case AudioPause
  then show ?thesis using assms(1)
    by (auto simp: onPauseTTS_def single_writer_def held_def Let_def split: option.splits)
next
  case AudioEnded
  then show ?thesis using assms(1)
    by (auto simp: onCloseTTS_def single_writer_def held_def Let_def split: option.splits)
next
  case EndTurn
  then show ?thesis using assms(1)
    by (auto simp: endOfStream_def single_writer_def held_def split: option.splits)
next
  case PausePlayer
  then show ?thesis using assms(1)
    by (auto simp: MediaSourcePlayer_pause_def single_writer_def held_def split: option.splits)
next
  case Reset
  then show ?thesis using assms(2) by simp
qed

lemma submitted_append: "submitted (es @ fs) = submitted es @ submitted fs"
  by (induction es rule: submitted.induct) simp_all

lemma run_single_writer:
  assumes "single_writer p" and "Reset \<notin> set es"
  shows "\<exists>p'. run es p = Inr p' \<and> single_writer p' \<and> held p' = held p @ submitted es"
  using assms
proof (induction es arbitrary: p)
  case Nil
  then show ?case by simp
next
  case (Cons e es)
  from Cons.prems have "e \<noteq> Reset" by auto
  from step_single_writer [OF Cons.prems(1) this] obtain p1 where
    p1: "step e p = Inr p1" "single_writer p1" "held p1 = held p @ submitted [e]"
    by blast
  from Cons.prems have "Reset \<notin> set es" by simp
  from Cons.IH [OF p1(2) this] obtain p' where
    "run es p1 = Inr p'" "single_writer p'" "held p' = held p1 @ submitted es"
    by blast
  then show ?case
    using p1 submitted_append [of "[e]" es] by simp
qed

lemma init_single_writer:
  "single_writer (MediaSourcePlayer_init (MediaSourcePlayer_new louder))"
  "held (MediaSourcePlayer_init (MediaSourcePlayer_new louder)) = []"
  by (simp_all add: single_writer_def held_def MediaSourcePlayer_init_def MediaSourcePlayer_new_def)

lemma step_keeps_queue:
  assumes "single_writer p" and "\<forall>d. e \<noteq> UpdateEnd d" and "e \<noteq> Reset"
  shows "\<exists>p'. step e p = Inr p' \<and> take (length (bufferQueue p)) (bufferQueue p') = bufferQueue p"
proof (cases e)
  case (Submit data)
  from assms(1) obtain sb where sb: "ttsSourceBuffer p = Some sb"
    by (auto simp: single_writer_def split: option.splits)
  show ?thesis
  proof (cases "checkBufferUpdating p")
    case True
    then show ?thesis using Submit by (simp add: adaptBuffer_def)
  next
    case False
    then have "\<not> updating sb" using sb by (simp add: checkBufferUpdating_def)
    from append_chunk_idle [OF sb this, of data] False Submit show ?thesis
      by (simp add: adaptBuffer_def)
  qed
next
  case (UpdateEnd d)
  then show ?thesis using assms(2) by simp
next
  case AudioPlay
  then show ?thesis by (simp add: onPlayTTS_def Let_def)
next
  case AudioPause
  then show ?thesis by (simp add: onPauseTTS_def Let_def)
next
  case AudioEnded
  then show ?thesis by (simp add: onCloseTTS_def Let_def)
next
  case EndTurn
  then show ?thesis by (simp add: endOfStream_def split: option.splits)
next
  case PausePlayer
  then show ?thesis by (simp add: MediaSourcePlayer_pause_def)
next
  case Reset
  then show ?thesis using assms(3) by simp
qed

text \<open>
  C1. Take a freshly initialised player and any sequence of events without a reset. The
  run never makes the source buffer reject an append. Afterwards at most one chunk is in
  flight, and the chunks acknowledged, the chunk in flight and the chunks queued are,
  in this order, exactly the chunks submitted. In the state reached, a chunk submitted
  while an append is in flight or the queue is not empty goes to the tail of the queue;
  an acknowledgment moves the chunk in flight to the acknowledged ones and puts the head
  of the queue in flight; and no event other than an acknowledgment takes a chunk from
  the queue.
\<close>

theorem single_writer_in_order:
  assumes "Reset \<notin> set es"
  shows "\<exists>p' sb. run es (MediaSourcePlayer_init (MediaSourcePlayer_new louder)) = Inr p'
       \<and> ttsSourceBuffer p' = Some sb
       \<and> length (inflight sb) \<le> 1
       \<and> acknowledged sb @ inflight sb @ bufferQueue p' = submitted es
       \<and> (updating sb \<or> bufferQueue p' \<noteq> [] \<longrightarrow>
            adaptBuffer data p' = Inr (p'\<lparr>bufferQueue := bufferQueue p' @ [data]\<rparr>))
       \<and> (\<exists>p'' sb''. updateend d p' = Inr p'' \<and> ttsSourceBuffer p'' = Some sb''
            \<and> (if updating sb
                then acknowledged sb'' = acknowledged sb @ inflight sb
                     \<and> inflight sb'' = take 1 (bufferQueue p')
                     \<and> bufferQueue p'' = drop 1 (bufferQueue p')
                else p'' = p'))
       \<and> ((\<forall>d. e \<noteq> UpdateEnd d) \<and> e \<noteq> Reset \<longrightarrow>
            (\<exists>p''. step e p' = Inr p''
               \<and> take (length (bufferQueue p')) (bufferQueue p'') = bufferQueue p'))"
proof -
  let ?p0 = "MediaSourcePlayer_init (MediaSourcePlayer_new louder)"
  from run_single_writer [OF init_single_writer(1) assms, of louder] obtain p' where
    r: "run es ?p0 = Inr p'" and sw: "single_writer p'" and h: "held p' = submitted es"
    by (auto simp: init_single_writer(2))
  from sw obtain sb where sb: "ttsSourceBuffer p' = Some sb"
    by (auto simp: single_writer_def split: option.splits)
  have one: "length (inflight sb) \<le> 1"
    using sw sb by (simp add: single_writer_def split: if_splits)
  have order: "acknowledged sb @ inflight sb @ bufferQueue p' = submitted es"
    using h sb by (simp add: held_def)
  have tail: "updating sb \<or> bufferQueue p' \<noteq> [] \<longrightarrow>
      adaptBuffer data p' = Inr (p'\<lparr>bufferQueue := bufferQueue p' @ [data]\<rparr>)"
    using sb by (auto simp: adaptBuffer_def checkBufferUpdating_def)
  from updateend_single_writer [OF sw sb, of d]
  have ack: "\<exists>p'' sb''. updateend d p' = Inr p'' \<and> ttsSourceBuffer p'' = Some sb''
            \<and> (if updating sb
                then acknowledged sb'' = acknowledged sb @ inflight sb
                     \<and> inflight sb'' = take 1 (bufferQueue p')
                     \<and> bufferQueue p'' = drop 1 (bufferQueue p')
                else p'' = p')"
    by blast
  have others: "(\<forall>d. e \<noteq> UpdateEnd d) \<and> e \<noteq> Reset \<longrightarrow>
            (\<exists>p''. step e p' = Inr p''
               \<and> take (length (bufferQueue p')) (bufferQueue p'') = bufferQueue p')"
    using step_keeps_queue [OF sw] by blast
  from r sb one order tail ack others show ?thesis
    by blast
qed

theorem single_writer_in_order_witness:
  "Reset \<notin> set [Submit [1], Submit [2], Submit [3], UpdateEnd Infinity, UpdateEnd Infinity]
   \<and> (\<exists>p' sb. run [Submit [1], Submit [2], Submit [3], UpdateEnd Infinity, UpdateEnd Infinity]
                  (MediaSourcePlayer_init (MediaSourcePlayer_new False)) = Inr p'
         \<and> ttsSourceBuffer p' = Some sb
         \<and> length (inflight sb) \<le> 1
         \<and> acknowledged sb @ inflight sb @ bufferQueue p' = [[1], [2], [3]])"
proof -
  let ?es = "[Submit [1], Submit [2], Submit [3], UpdateEnd Infinity, UpdateEnd Infinity]"
  have a: "Reset \<notin> set ?es"
    by simp
  have b: "submitted ?es = [[1], [2], [3]]"
    by simp
  from single_writer_in_order [OF a, of False] obtain p' sb where
    "run ?es (MediaSourcePlayer_init (MediaSourcePlayer_new False)) = Inr p'"
    "ttsSourceBuffer p' = Some sb" "length (inflight sb) \<le> 1"
    "acknowledged sb @ inflight sb @ bufferQueue p' = submitted ?es"
    by blast
  then show ?thesis
    using a b by auto
qed

lemma append_chunk_audio:
  assumes "append_chunk data p = Inr p'"
  shows "audioElement p' = audioElement p \<and> playing p' = playing p
       \<and> lastDuration p' = lastDuration p"
  using assms
  by (auto simp: append_chunk_def appendBuffer_def split: option.splits if_splits)

lemma adaptBuffer_audio:
  assumes "adaptBuffer data p = Inr p'"
  shows "audioElement p' = audioElement p \<and> playing p' = playing p
       \<and> lastDuration p' = lastDuration p"
  using assms append_chunk_audio [of data p p']
  by (auto simp: adaptBuffer_def split: if_splits)

lemma handler_audio:
  assumes "ttsMediaSource p = Some ms" and "sourceBufferOnUpdateEnd p = Inr p'"
  shows "audioElement p' =
           audioElement p
           @ (if \<not> playing p \<and> ge (duration ms) 0.5
              then (if ttsEnded p \<and> duration ms \<noteq> Infinity \<and> lastDuration p \<noteq> 0
                    then [SetCurrentTime (lastDuration p)] else []) @ [Play]
              else [])"
    and "playing p' \<longleftrightarrow> playing p \<or> ge (duration ms) 0.5"
    and "lastDuration p' = (if duration ms = Infinity then 0 else lastDuration p)"
proof -
  define a where "a = audioElement p
           @ (if \<not> playing p \<and> ge (duration ms) 0.5
              then (if ttsEnded p \<and> duration ms \<noteq> Infinity \<and> lastDuration p \<noteq> 0
                    then [SetCurrentTime (lastDuration p)] else []) @ [Play]
              else [])"
  have "\<exists>q. (sourceBufferOnUpdateEnd p = Inr q
              \<or> (\<exists>data. sourceBufferOnUpdateEnd p = append_chunk data q))
            \<and> audioElement q = a \<and> (playing q \<longleftrightarrow> playing p \<or> ge (duration ms) 0.5)
            \<and> lastDuration q = (if duration ms = Infinity then 0 else lastDuration p)"
    using assms(1)
    by (cases "bufferQueue p") (auto simp: sourceBufferOnUpdateEnd_def Let_def a_def)
  then obtain q where
    q: "sourceBufferOnUpdateEnd p = Inr q \<or> (\<exists>data. sourceBufferOnUpdateEnd p = append_chunk data q)"
    and qa: "audioElement q = a" and qp: "playing q \<longleftrightarrow> playing p \<or> ge (duration ms) 0.5"
    and ql: "lastDuration q = (if duration ms = Infinity then 0 else lastDuration p)"
    by blast
  have "audioElement p' = audioElement q \<and> playing p' = playing q
      \<and> lastDuration p' = lastDuration q"
    using q
  proof (elim disjE exE)
    assume "sourceBufferOnUpdateEnd p = Inr q"
    then show ?thesis using assms(2) by simp
  next
    fix data
    assume "sourceBufferOnUpdateEnd p = append_chunk data q"
    then have "append_chunk data q = Inr p'" using assms(2) by simp
    then show ?thesis using append_chunk_audio [of data q p'] by simp
  qed
  then show "audioElement p' =
           audioElement p
           @ (if \<not> playing p \<and> ge (duration ms) 0.5
              then (if ttsEnded p \<and> duration ms \<noteq> Infinity \<and> lastDuration p \<noteq> 0
                    then [SetCurrentTime (lastDuration p)] else []) @ [Play]
              else [])"
    and "playing p' \<longleftrightarrow> playing p \<or> ge (duration ms) 0.5"
    and "lastDuration p' = (if duration ms = Infinity then 0 else lastDuration p)"
    using qa qp ql by (simp_all add: a_def)
qed

text \<open>
  A media source that is still being fed reports the duration \<open>Infinity\<close>. On such a
  source the handler of the acknowledgment starts playback whenever the player is not
  playing, whatever the source buffer holds.
\<close>

lemma streaming_source_starts_playback:
  assumes "ttsMediaSource p = Some ms" and "duration ms = Infinity" and "\<not> playing p"
    and "sourceBufferOnUpdateEnd p = Inr p'"
  shows "audioElement p' = audioElement p @ [Play] \<and> playing p'"
  using handler_audio(1,2) [OF assms(1) assms(4)] assms(2) assms(3)
  by simp

lemmas player_defs = MediaSourcePlayer_new_def MediaSourcePlayer_init_def
  MediaSourcePlayer_reset_def MediaSourcePlayer_pause_def endOfStream_def adaptBuffer_def
  checkBufferUpdating_def append_chunk_def appendBuffer_def sourceBufferOnUpdateEnd_def
  updateend_def onPlayTTS_def onPauseTTS_def onCloseTTS_def Let_def

text \<open>
  C8, on the code. The first chunk of a turn, holding a tenth of a second of media, is
  submitted and its append is acknowledged while the media source reports the duration
  of a stream that is still growing, \<open>Infinity\<close>: the handler calls \<open>play\<close> on the audio
  element and sets \<open>playing\<close> at this first acknowledgment, with 0.1 seconds of media in
  the source buffer. The handler compares the \<open>duration\<close> attribute of the media source
  with 0.5, not the length of what is buffered.
\<close>

theorem first_chunk_starts_playback:
  "(case run [Submit [1], UpdateEnd Infinity]
             (MediaSourcePlayer_init (MediaSourcePlayer_new False)) of
      Inl err \<Rightarrow> None
    | Inr p \<Rightarrow> Some (audioElement p, playing p,
                     bufferedDuration (\<lambda>c. real (length c) / 10) p))
   = Some ([SetSrc, Play], True, 1 / 10)"
  by (simp add: player_defs bufferedDuration_def)

subsection \<open>The position across a turn boundary\<close>

lemma step_never_seeks:
  assumes "step e p = Inr p'" and "lastDuration p = 0"
    and "\<forall>t. SetCurrentTime t \<notin> set (audioElement p)"
  shows "lastDuration p' = 0 \<and> (\<forall>t. SetCurrentTime t \<notin> set (audioElement p'))"
proof (cases e)
  case (Submit data)
  then show ?thesis using assms adaptBuffer_audio [of data p p'] by simp
next
  case (UpdateEnd d)
  show ?thesis
  proof (cases "ttsSourceBuffer p")
    case None
    then show ?thesis using assms UpdateEnd by (simp add: updateend_def)
  next
    case (Some sb)
    define p1 where "p1 = p\<lparr>ttsSourceBuffer := Some (sb\<lparr>updating := False, inflight := [],
                        acknowledged := acknowledged sb @ inflight sb, listener := False\<rparr>),
         ttsMediaSource := map_option (\<lambda>ms. ms\<lparr>duration := d\<rparr>) (ttsMediaSource p)\<rparr>"
    have p1: "lastDuration p1 = 0" "audioElement p1 = audioElement p"
      using assms by (simp_all add: p1_def)
    consider "p' = p" | "p' = p1" | "sourceBufferOnUpdateEnd p1 = Inr p'"
      using assms(1) UpdateEnd Some
      by (cases "updating sb"; cases "listener sb") (simp_all add: updateend_def Let_def p1_def)
    then show ?thesis
    proof cases
      case 1
      then show ?thesis using assms by simp
    next
      case 2
      then show ?thesis using assms p1 by simp
    next
      case 3
      show ?thesis
      proof (cases "ttsMediaSource p1")
        case None
        then show ?thesis using 3 assms p1 by (simp add: sourceBufferOnUpdateEnd_def)
      next
        case (Some ms)
        from handler_audio(1,3) [OF Some 3] p1 assms(3) show ?thesis
          by simp
      qed
    qed
  qed
next
  case AudioPlay
  then show ?thesis using assms
    by (cases "interruptLouder p") (auto simp: onPlayTTS_def Let_def)
next
  case AudioPause
  then show ?thesis using assms
    by (cases "interruptLouder p") (auto simp: onPauseTTS_def Let_def)
next
  case AudioEnded
  then show ?thesis using assms
    by (cases "interruptLouder p") (auto simp: onCloseTTS_def Let_def)
next
  case EndTurn
  then show ?thesis using assms
    by (auto simp: endOfStream_def split: option.splits if_splits)
next
  case PausePlayer
  then show ?thesis using assms by (auto simp: MediaSourcePlayer_pause_def)
next
  case Reset
  then show ?thesis using assms
    by (auto simp: MediaSourcePlayer_reset_def MediaSourcePlayer_init_def split: if_splits)
qed

text \<open>
  Whatever happens to a player, the field \<open>lastDuration\<close> stays 0, so the branch of the
  handler that would move the audio element to the position of the last turn is never
  taken.
\<close>

lemma lastDuration_never_captured:
  assumes "run es p = Inr p'" and "lastDuration p = 0"
    and "\<forall>t. SetCurrentTime t \<notin> set (audioElement p)"
  shows "lastDuration p' = 0 \<and> (\<forall>t. SetCurrentTime t \<notin> set (audioElement p'))"
  using assms
proof (induction es arbitrary: p)
  case Nil
  then show ?case by simp
next
  case (Cons e es)
  from Cons.prems(1) obtain p1 where s: "step e p = Inr p1" and r: "run es p1 = Inr p'"
    by (auto split: sum.splits)
  from step_never_seeks [OF s Cons.prems(2) Cons.prems(3)] Cons.IH [OF r] show ?case
    by blast
qed

text \<open>
  C4, on the code. A first turn plays and ends (the audio element fires \<open>ended\<close>), the
  player is reset, and a chunk of the next turn is acknowledged with a duration of one
  second: the player attaches the new source and calls \<open>play\<close>, and never sets
  \<open>currentTime\<close>; \<open>lastDuration\<close> is 0 although \<open>ttsEnded\<close> is set.
\<close>

theorem next_turn_plays_without_seek:
  "(case run [Submit [1], UpdateEnd (Num 3), AudioPlay, EndTurn, AudioEnded, Reset,
              Submit [2], UpdateEnd (Num 1)]
             (MediaSourcePlayer_init (MediaSourcePlayer_new False)) of
      Inl err \<Rightarrow> None
    | Inr p \<Rightarrow> Some (audioElement p, lastDuration p, ttsEnded p))
   = Some ([SetSrc, Play, SetSrc, Play], 0, True)"
  by (simp add: player_defs)

end
